theory Spec2Isabelle
  imports Main "HOL-Library.Word"
begin

section \<open>Set membership: the IN operator of sql/expression/in.go\<close>

subsection \<open>Values, errors and the interfaces in.go calls\<close>

text \<open>
  A Go \<open>interface{}\<close> value as the evaluator sees it: \<open>nil\<close> (SQL NULL), a boolean
  (the result of IN), an integer, a string, or a row of values (what a multi-column
  tuple evaluates to).
\<close>

datatype val = NULL | Bool bool | Int64 int | Text string | Row "val list"

text \<open>
  Every error value and panic that in.go can return or raise. \<open>ErrExternal\<close> stands
  for an error produced by code outside in.go (a type descriptor's Convert or Compare, the
  Eval of another expression kind); \<open>NilTypePanic\<close> is the runtime panic of a method call
  on a nil \<open>sql.Type\<close>.
\<close>

datatype error =
    ErrInvalidOperandColumns nat nat
  | ErrUnsupportedInOperand
  | ErrUnsupportedHashInOperand
  | ErrUnsupportedHashInSubexpression
  | ErrInvalidChildrenNumber nat nat
  | ErrIndexOutOfBounds nat nat
  | ErrExternal string
  | NilTypePanic

text \<open>
  The interface \<open>sql.Type\<close> and the package function \<open>sql.NumColumns\<close> are declared
  outside in.go. They are taken as a parameter: \<open>'t\<close> names the type descriptors, and the
  record gives the methods in.go calls on them. \<open>NumColumns\<close> takes an optional
  descriptor because in.go also calls it on a nil \<open>sql.Type\<close>.
\<close>

record 't typesys =
  Convert :: "'t \<Rightarrow> val \<Rightarrow> error + val"
  Compare :: "'t \<Rightarrow> val \<Rightarrow> val \<Rightarrow> error + int"
  Promote :: "'t \<Rightarrow> 't"
  NumColumns :: "'t option \<Rightarrow> nat"
  CreateTuple :: "'t list \<Rightarrow> 't"

text \<open>
  The library calls of in.go, taken as a parameter as well: \<open>xxhash\<close> is
  \<open>xxhash.New()\<close>, any number of \<open>Write\<close>s and \<open>Sum64()\<close>, as a function of the
  bytes written (its \<open>Write\<close> never returns an error); \<open>gosyntax\<close> is
  \<open>fmt.Sprintf("%#v", v)\<close> on a value and \<open>gosyntax64\<close> the same on a \<open>uint64\<close>.
\<close>

record lib =
  xxhash :: "string \<Rightarrow> 64 word"
  gosyntax :: "val \<Rightarrow> string"
  gosyntax64 :: "64 word \<Rightarrow> string"

text \<open>
  The expression kinds in.go distinguishes by type switch: \<open>*Literal\<close> (a value and its
  type), \<open>*GetField\<close> (a column index and its type) and \<open>Tuple\<close> (a list of
  expressions). \<open>Other\<close> is any other expression kind, given by its type and its
  evaluation on a row; in.go only ever calls \<open>Type\<close> and \<open>Eval\<close> on it.
\<close>

datatype 't expr =
    Literal val 't
  | GetField nat 't
  | Tuple "'t expr list"
  | Other 't "val list \<Rightarrow> error + val"

text \<open>
  Modelled from the spec: the methods \<open>Type()\<close> and \<open>Eval(ctx, row)\<close> of the literal,
  field and tuple expressions, which are declared outside in.go. A literal has its stored
  type and evaluates to its stored value; a field has its stored type and reads the row
  at its index; a tuple has the tuple type of its elements' types and evaluates its
  elements in order into a row of values, stopping at the first error. The context
  argument is passed through unchanged everywhere in in.go and is left out.
\<close>

fun Type :: "'t typesys \<Rightarrow> 't expr \<Rightarrow> 't" where
  "Type ts (Literal v t) = t"
| "Type ts (GetField i t) = t"
| "Type ts (Tuple es) = CreateTuple ts (map (Type ts) es)"
| "Type ts (Other t f) = t"

fun Eval :: "'t expr \<Rightarrow> val list \<Rightarrow> error + val"
  and EvalAll :: "'t expr list \<Rightarrow> val list \<Rightarrow> error + val list" where
  "Eval (Literal v t) row = Inr v"
| "Eval (GetField i t) row =
     (if i < length row then Inr (row ! i) else Inl (ErrIndexOutOfBounds i (length row)))"
| "Eval (Tuple es) row =
     (case EvalAll es row of Inl err \<Rightarrow> Inl err | Inr vs \<Rightarrow> Inr (Row vs))"
| "Eval (Other t f) row = f row"
| "EvalAll [] row = Inr []"
| "EvalAll (e # es) row =
     (case Eval e row of
        Inl err \<Rightarrow> Inl err
      | Inr v \<Rightarrow> (case EvalAll es row of Inl err \<Rightarrow> Inl err | Inr vs \<Rightarrow> Inr (v # vs)))"

subsection \<open>InTuple: the linear evaluator\<close>

text \<open>\<open>InTuple\<close> embeds \<open>BinaryExpression\<close>: a left and a right operand.\<close>

record 't InTuple =
  Left :: "'t expr"
  Right :: "'t expr"

definition NewInTuple :: "'t expr \<Rightarrow> 't expr \<Rightarrow> 't InTuple" where
  "NewInTuple left right = \<lparr>Left = left, Right = right\<rparr>"

text \<open>
  The first loop of \<open>InTuple.Eval\<close>: every candidate's column count against the left
  operand's, the first mismatch returned as an error.
\<close>

fun checkColumns :: "'t typesys \<Rightarrow> nat \<Rightarrow> 't expr list \<Rightarrow> error option" where
  "checkColumns ts leftElems [] = None"
| "checkColumns ts leftElems (el # els) =
     (if NumColumns ts (Some (Type ts el)) \<noteq> leftElems
      then Some (ErrInvalidOperandColumns leftElems (NumColumns ts (Some (Type ts el))))
      else checkColumns ts leftElems els)"

text \<open>
  The second loop, with the loop variable \<open>rightNull\<close> as an argument: evaluate the
  candidate; \<open>if !rightNull && right == nil { rightNull = true; continue }\<close>; convert;
  compare; return true on the first match. After the loop: NULL if \<open>rightNull\<close>, else
  false.
\<close>

fun evalCandidates ::
  "'t typesys \<Rightarrow> 't \<Rightarrow> val \<Rightarrow> val list \<Rightarrow> bool \<Rightarrow> 't expr list \<Rightarrow> error + val" where
  "evalCandidates ts typ left row rightNull [] =
     (if rightNull then Inr NULL else Inr (Bool False))"
| "evalCandidates ts typ left row rightNull (el # els) =
     (case Eval el row of
        Inl err \<Rightarrow> Inl err
      | Inr right \<Rightarrow>
          if \<not> rightNull \<and> right = NULL then evalCandidates ts typ left row True els
          else (case Convert ts typ right of
                  Inl err \<Rightarrow> Inl err
                | Inr right' \<Rightarrow>
                    (case Compare ts typ left right' of
                       Inl err \<Rightarrow> Inl err
                     | Inr c \<Rightarrow>
                         if c = 0 then Inr (Bool True)
                         else evalCandidates ts typ left row rightNull els)))"

definition InTuple_Eval :: "'t typesys \<Rightarrow> 't InTuple \<Rightarrow> val list \<Rightarrow> error + val" where
  "InTuple_Eval ts n row =
     (let typ = Promote ts (Type ts (Left n));
          leftElems = NumColumns ts (Some typ)
      in case Eval (Left n) row of
           Inl err \<Rightarrow> Inl err
         | Inr left \<Rightarrow>
             if left = NULL then Inr NULL
             else (case Convert ts typ left of
                     Inl err \<Rightarrow> Inl err
                   | Inr left' \<Rightarrow>
                       (case Right n of
                          Tuple right \<Rightarrow>
                            (case checkColumns ts leftElems right of
                               Some err \<Rightarrow> Inl err
                             | None \<Rightarrow> evalCandidates ts typ left' row False right)
                        | _ \<Rightarrow> Inl ErrUnsupportedInOperand)))"

definition InTuple_Children :: "'t InTuple \<Rightarrow> 't expr list" where
  "InTuple_Children n = [Left n, Right n]"

definition InTuple_WithChildren :: "'t InTuple \<Rightarrow> 't expr list \<Rightarrow> error + 't InTuple" where
  "InTuple_WithChildren n children =
     (if length children \<noteq> 2 then Inl (ErrInvalidChildrenNumber (length children) 2)
      else Inr (NewInTuple (children ! 0) (children ! 1)))"

subsection \<open>HashInTuple: the hashed evaluator\<close>

text \<open>
  \<open>hashOfTuple\<close> writes, for each element in order, the Go syntax of a literal's stored
  value or of a nested tuple's hash, each followed by a comma, and returns the hash of
  all bytes written; an element of any other kind writes nothing. \<open>tupleWrites\<close> is the
  loop, returning the bytes written.
\<close>

fun hashOfTuple :: "lib \<Rightarrow> 't expr list \<Rightarrow> 64 word"
  and tupleWrites :: "lib \<Rightarrow> 't expr list \<Rightarrow> string" where
  "hashOfTuple lb tup = xxhash lb (tupleWrites lb tup)"
| "tupleWrites lb [] = []"
| "tupleWrites lb (Literal v t # els) = (gosyntax lb v @ '','') @ tupleWrites lb els"
| "tupleWrites lb (Tuple v # els) =
     (gosyntax64 lb (hashOfTuple lb v) @ '','') @ tupleWrites lb els"
| "tupleWrites lb (GetField i t # els) = tupleWrites lb els"
| "tupleWrites lb (Other t f # els) = tupleWrites lb els"

text \<open>
  \<open>hashOfLiteral\<close> converts the stored value to the type \<open>t\<close> and hashes its Go syntax
  followed by a comma. \<open>t\<close> is nil when no candidate set its value; the method call
  \<open>t.Convert\<close> then panics.
\<close>

definition hashOfLiteral :: "lib \<Rightarrow> 't typesys \<Rightarrow> val \<Rightarrow> 't option \<Rightarrow> error + 64 word" where
  "hashOfLiteral lb ts v t =
     (case t of
        None \<Rightarrow> Inl NilTypePanic
      | Some t' \<Rightarrow>
          (case Convert ts t' v of
             Inl err \<Rightarrow> Inl err
           | Inr i \<Rightarrow> Inr (xxhash lb (gosyntax lb i @ '',''))))"

fun hashOf :: "lib \<Rightarrow> 't typesys \<Rightarrow> 't expr \<Rightarrow> 't option \<Rightarrow> error + 64 word" where
  "hashOf lb ts (Tuple v) t = Inr (hashOfTuple lb v)"
| "hashOf lb ts (Literal v lt) t = hashOfLiteral lb ts v t"
| "hashOf lb ts e t = Inl ErrUnsupportedHashInSubexpression"

text \<open>
  The loop of \<open>newInMap\<close> over the elements of the right-hand tuple, with the map
  \<open>elements\<close> and the type \<open>t\<close> as arguments. The first element sets \<open>t\<close> to its type;
  every later element must have as many columns after promotion as \<open>t\<close>. A literal or
  tuple element is stored under its hash; any failure of \<open>hashOf\<close>, and any other
  element kind, is \<open>ErrUnsupportedHashInSubexpression\<close>.
\<close>

fun inMapLoop ::
  "lib \<Rightarrow> 't typesys \<Rightarrow> 't expr list \<Rightarrow> (64 word \<rightharpoonup> 't expr) \<Rightarrow> 't option
   \<Rightarrow> error + ((64 word \<rightharpoonup> 't expr) \<times> 't option)" where
  "inMapLoop lb ts [] elements t = Inr (elements, t)"
| "inMapLoop lb ts (el # els) elements t =
     (case (case t of
              None \<Rightarrow> Inr (Some (Type ts el))
            | Some t' \<Rightarrow>
                (let numEls = NumColumns ts (Some (Promote ts (Type ts el)))
                 in if NumColumns ts t \<noteq> numEls
                    then Inl (ErrInvalidOperandColumns numEls (NumColumns ts t))
                    else Inr t)) of
        Inl err \<Rightarrow> Inl err
      | Inr t1 \<Rightarrow>
          (case el of
             GetField i ft \<Rightarrow> Inl ErrUnsupportedHashInSubexpression
           | Other ot f \<Rightarrow> Inl ErrUnsupportedHashInSubexpression
           | _ \<Rightarrow>
               (case hashOf lb ts el t1 of
                  Inl err \<Rightarrow> Inl ErrUnsupportedHashInSubexpression
                | Inr key \<Rightarrow> inMapLoop lb ts els (elements(key \<mapsto> el)) t1)))"

text \<open>
  \<open>newInMap\<close> returns the map, the flag \<open>hasNull\<close> and the type. \<open>hasNull\<close> is
  initialised to false and no statement of \<open>newInMap\<close> assigns to it.
\<close>

definition newInMap ::
  "lib \<Rightarrow> 't typesys \<Rightarrow> 't expr
   \<Rightarrow> error + ((64 word \<rightharpoonup> 't expr) \<times> bool \<times> 't option)" where
  "newInMap lb ts e =
     (let hasNull = False
      in case e of
           Tuple right \<Rightarrow>
             (case inMapLoop lb ts right Map.empty None of
                Inl err \<Rightarrow> Inl err
              | Inr (elements, t) \<Rightarrow> Inr (elements, hasNull, t))
         | _ \<Rightarrow> Inl ErrUnsupportedHashInOperand)"

text \<open>\<open>HashInTuple\<close> embeds \<open>InTuple\<close> and adds the map, the flag and the type.\<close>

record 't HashInTuple = "'t InTuple" +
  cmp :: "64 word \<rightharpoonup> 't expr"
  hasNull :: bool
  rightType :: "'t option"

definition NewHashInTuple ::
  "lib \<Rightarrow> 't typesys \<Rightarrow> 't expr \<Rightarrow> 't expr \<Rightarrow> error + 't HashInTuple" where
  "NewHashInTuple lb ts left right =
     (case newInMap lb ts right of
        Inl err \<Rightarrow> Inl err
      | Inr (c, hn, t) \<Rightarrow>
          Inr \<lparr>Left = left, Right = right, cmp = c, hasNull = hn, rightType = t\<rparr>)"

text \<open>
  Modelled from the spec: \<open>TransformUp\<close>, which is declared outside in.go. It
  transforms the children first, reattaches them and applies the function to the
  result; a node without children is passed to the function as it is. Of the kinds
  above a tuple has its elements as children; an expression of another kind is taken
  as a leaf.
\<close>

fun TransformUp :: "('t expr \<Rightarrow> error + 't expr) \<Rightarrow> 't expr \<Rightarrow> error + 't expr"
  and TransformAll :: "('t expr \<Rightarrow> error + 't expr) \<Rightarrow> 't expr list \<Rightarrow> error + 't expr list" where
  "TransformUp f (Tuple []) = f (Tuple [])"
| "TransformUp f (Tuple (c # cs)) =
     (case TransformAll f (c # cs) of Inl err \<Rightarrow> Inl err | Inr cs' \<Rightarrow> f (Tuple cs'))"
| "TransformUp f (Literal v t) = f (Literal v t)"
| "TransformUp f (GetField i t) = f (GetField i t)"
| "TransformUp f (Other t g) = f (Other t g)"
| "TransformAll f [] = Inr []"
| "TransformAll f (c # cs) =
     (case TransformUp f c of
        Inl err \<Rightarrow> Inl err
      | Inr c' \<Rightarrow> (case TransformAll f cs of Inl err \<Rightarrow> Inl err | Inr cs' \<Rightarrow> Inr (c' # cs')))"

text \<open>The function \<open>normalizeLeft\<close> passes to \<open>TransformUp\<close>: a field becomes a literal.\<close>

fun fieldToLiteral :: "val list \<Rightarrow> 't expr \<Rightarrow> error + 't expr" where
  "fieldToLiteral row (GetField i t) =
     (case Eval (GetField i t) row of Inl err \<Rightarrow> Inl err | Inr v \<Rightarrow> Inr (Literal v t))"
| "fieldToLiteral row e = Inr e"

fun normalizeLeft :: "'t expr \<Rightarrow> val list \<Rightarrow> error + 't expr" where
  "normalizeLeft (Tuple es) row = TransformUp (fieldToLiteral row) (Tuple es)"
| "normalizeLeft (Literal v t) row = Inr (Literal v t)"
| "normalizeLeft (GetField i t) row =
     (case Eval (GetField i t) row of Inl err \<Rightarrow> Inl err | Inr v \<Rightarrow> Inr (Literal v t))"
| "normalizeLeft (Other t f) row = Inl ErrUnsupportedHashInOperand"

definition HashInTuple_Eval ::
  "lib \<Rightarrow> 't typesys \<Rightarrow> 't HashInTuple \<Rightarrow> val list \<Rightarrow> error + val" where
  "HashInTuple_Eval lb ts hit row =
     (if hasNull hit then Inr NULL
      else case normalizeLeft (Left hit) row of
             Inl err \<Rightarrow> Inl err
           | Inr left \<Rightarrow>
               (let leftElems = NumColumns ts (Some (Promote ts (Type ts left)))
                in if NumColumns ts (rightType hit) \<noteq> leftElems
                   then Inl (ErrInvalidOperandColumns leftElems (NumColumns ts (rightType hit)))
                   else (case Eval left row of
                           Inl err \<Rightarrow> Inl err
                         | Inr leftVal \<Rightarrow>
                             if leftVal = NULL then Inr NULL
                             else (case hashOf lb ts left (rightType hit) of
                                     Inl err \<Rightarrow> Inl err
                                   | Inr key \<Rightarrow>
                                       (case cmp hit key of
                                          None \<Rightarrow> Inr (Bool False)
                                        | Some e \<Rightarrow> Inr (Bool True))))))"

text \<open>
  \<open>HashInTuple\<close> declares no \<open>Children\<close> and no \<open>WithChildren\<close>: Go promotes the
  methods of the embedded \<open>InTuple\<close>, which see the embedded struct only.
\<close>

definition HashInTuple_Children :: "'t HashInTuple \<Rightarrow> 't expr list" where
  "HashInTuple_Children hit = InTuple_Children (InTuple.truncate hit)"

definition HashInTuple_WithChildren ::
  "'t HashInTuple \<Rightarrow> 't expr list \<Rightarrow> error + 't InTuple" where
  "HashInTuple_WithChildren hit children = InTuple_WithChildren (InTuple.truncate hit) children"

section \<open>The index-expression mini-parser\<close>

subsection \<open>The reader\<close>

text \<open>
  The errors of the parser: \<open>io.EOF\<close>, \<open>errUnexpectedSyntax\<close> with the expected and
  the actual text, \<open>bufio.ErrInvalidUnreadRune\<close>, and any other error the underlying
  \<open>io.Reader\<close> reports.
\<close>

datatype perror =
    EOF
  | ErrUnexpectedSyntax string string
  | ErrInvalidUnreadRune
  | ErrSource string

fun isUnexpectedSyntax :: "perror \<Rightarrow> bool" where
  "isUnexpectedSyntax (ErrUnexpectedSyntax expected actual) = True"
| "isUnexpectedSyntax err = False"

text \<open>
  A \<open>*bufio.Reader\<close> over text of single-byte (ASCII) runes: the bytes not yet read,
  the error the source reports once they are used up (\<open>io.EOF\<close> for a string), and
  the rune \<open>UnreadRune\<close> may push back, present only directly after a \<open>ReadRune\<close>.
  Look-ahead is assumed to fit the reader's buffer.
\<close>

record reader =
  unread :: string
  atEnd :: perror
  lastRune :: "char option"

definition NewReader :: "string \<Rightarrow> reader" where
  "NewReader str = \<lparr>unread = str, atEnd = EOF, lastRune = None\<rparr>"

definition ReadRune :: "reader \<Rightarrow> (perror + char) \<times> reader" where
  "ReadRune rd =
     (case unread rd of
        [] \<Rightarrow> (Inl (atEnd rd), rd\<lparr>lastRune := None\<rparr>)
      | c # cs \<Rightarrow> (Inr c, rd\<lparr>unread := cs, lastRune := Some c\<rparr>))"

definition UnreadRune :: "reader \<Rightarrow> perror option \<times> reader" where
  "UnreadRune rd =
     (case lastRune rd of
        None \<Rightarrow> (Some ErrInvalidUnreadRune, rd)
      | Some c \<Rightarrow> (None, rd\<lparr>unread := c # unread rd, lastRune := None\<rparr>))"

definition Peek :: "nat \<Rightarrow> reader \<Rightarrow> string \<times> perror option \<times> reader" where
  "Peek n rd =
     (if n \<le> length (unread rd) then (take n (unread rd), None, rd\<lparr>lastRune := None\<rparr>)
      else (unread rd, Some (atEnd rd), rd\<lparr>lastRune := None\<rparr>))"

definition Discard :: "nat \<Rightarrow> reader \<Rightarrow> perror option \<times> reader" where
  "Discard n rd =
     (if n \<le> length (unread rd) then (None, rd\<lparr>unread := drop n (unread rd), lastRune := None\<rparr>)
      else (Some (atEnd rd), rd\<lparr>unread := [], lastRune := None\<rparr>))"

text \<open>\<open>unicode.IsLetter\<close>, \<open>unicode.IsDigit\<close> and \<open>strings.ToLower\<close> on ASCII.\<close>

definition isLetter :: "char \<Rightarrow> bool" where
  "isLetter c = (let n = (of_char c :: nat) in (65 \<le> n \<and> n \<le> 90) \<or> (97 \<le> n \<and> n \<le> 122))"

definition isDigit :: "char \<Rightarrow> bool" where
  "isDigit c = (let n = (of_char c :: nat) in 48 \<le> n \<and> n \<le> 57)"

definition ToLower :: "string \<Rightarrow> string" where
  "ToLower str =
     map (\<lambda>c. let n = (of_char c :: nat) in if 65 \<le> n \<and> n \<le> 90 then char_of (n + 32) else c) str"

subsection \<open>Parse functions\<close>

text \<open>
  A \<open>parseFunc\<close> reads from the reader and may assign to variables it has pointers to
  (\<open>ident *string\<close>, \<open>matched *bool\<close>). The variables are a store \<open>'s\<close> passed along
  with the reader, and a pointer is the function that assigns through it.
\<close>

type_synonym 's parseFunc = "reader \<Rightarrow> 's \<Rightarrow> perror option \<times> reader \<times> 's"

fun exec :: "'s parseFunc list \<Rightarrow> 's parseFunc" where
  "exec [] rd s = (None, rd, s)"
| "exec (fn # fns) rd s =
     (case fn rd s of
        (Some err, rd', s') \<Rightarrow> (Some err, rd', s')
      | (None, rd', s') \<Rightarrow> exec fns rd' s')"

definition expectRune :: "char \<Rightarrow> 's parseFunc" where
  "expectRune expected rd s =
     (case ReadRune rd of
        (Inl err, rd') \<Rightarrow> (Some err, rd', s)
      | (Inr r, rd') \<Rightarrow>
          if r \<noteq> expected then (Some (ErrUnexpectedSyntax [expected] [r]), rd', s)
          else (None, rd', s))"

fun optional :: "'s parseFunc list \<Rightarrow> 's parseFunc" where
  "optional [] rd s = (None, rd, s)"
| "optional (step # steps) rd s =
     (case step rd s of
        (Some err, rd', s') \<Rightarrow>
          if err = EOF \<or> isUnexpectedSyntax err then (None, rd', s') else (Some err, rd', s')
      | (None, rd', s') \<Rightarrow> optional steps rd' s')"

definition readLetter :: "reader \<Rightarrow> string \<Rightarrow> perror option \<times> reader \<times> string" where
  "readLetter r buf =
     (case ReadRune r of
        (Inl err, r') \<Rightarrow> if err = EOF then (None, r', buf) else (Some err, r', buf)
      | (Inr ru, r') \<Rightarrow>
          if \<not> isLetter ru
          then (case UnreadRune r' of
                  (Some err, r'') \<Rightarrow> (Some err, r'', buf)
                | (None, r'') \<Rightarrow> (None, r'', buf))
          else (None, r', buf @ [ru]))"

definition readValidIdentRune :: "reader \<Rightarrow> string \<Rightarrow> perror option \<times> reader \<times> string" where
  "readValidIdentRune r buf =
     (case ReadRune r of
        (Inl err, r') \<Rightarrow> (Some err, r', buf)
      | (Inr ru, r') \<Rightarrow>
          if \<not> isLetter ru \<and> \<not> isDigit ru \<and> ru \<noteq> CHR ''_''
          then (case UnreadRune r' of
                  (Some err, r'') \<Rightarrow> (Some err, r'', buf)
                | (None, r'') \<Rightarrow> (Some EOF, r'', buf))
          else (None, r', buf @ [ru]))"

text \<open>
  The loop of \<open>readIdent\<close>: \<open>io.EOF\<close> from \<open>readValidIdentRune\<close> ends the loop, any other
  error is returned. Every round that goes on has read one rune.
\<close>

function identLoop :: "reader \<Rightarrow> string \<Rightarrow> perror option \<times> reader \<times> string" where
  "identLoop r buf =
     (case readValidIdentRune r buf of
        (Some err, r', buf') \<Rightarrow> if err = EOF then (None, r', buf') else (Some err, r', buf')
      | (None, r', buf') \<Rightarrow> identLoop r' buf')"
  by pat_completeness auto
termination
  by (relation "measure (\<lambda>(r, buf). length (unread r))")
    (auto simp: readValidIdentRune_def ReadRune_def UnreadRune_def
      split: list.splits if_splits option.splits prod.splits)

definition readIdent :: "(string \<Rightarrow> 's \<Rightarrow> 's) \<Rightarrow> 's parseFunc" where
  "readIdent ident r s =
     (case readLetter r [] of
        (Some err, r', buf) \<Rightarrow> (Some err, r', s)
      | (None, r', buf) \<Rightarrow>
          (case identLoop r' buf of
             (Some err, r'', buf') \<Rightarrow> (Some err, r'', s)
           | (None, r'', buf') \<Rightarrow> (None, r'', ident (ToLower buf') s)))"

definition expect :: "string \<Rightarrow> 's parseFunc" where
  "expect expected r s =
     (case readIdent (\<lambda>v p. v) r [] of
        (Some err, r', ident) \<Rightarrow> (Some err, r', s)
      | (None, r', ident) \<Rightarrow>
          if ident = expected then (None, r', s)
          else (Some (ErrUnexpectedSyntax expected ident), r', s))"

definition readValidQuotedIdentRune ::
  "reader \<Rightarrow> string \<Rightarrow> perror option \<times> reader \<times> string" where
  "readValidQuotedIdentRune r buf =
     (case Peek 2 r of
        (bs, Some err, r0) \<Rightarrow> (Some err, r0, buf)
      | (bs, None, r0) \<Rightarrow>
          if bs ! 0 = CHR 0x60 \<and> bs ! 1 = CHR 0x60
          then (case ReadRune r0 of
                  (Inl err, r1) \<Rightarrow> (Some err, r1, buf)
                | (Inr c1, r1) \<Rightarrow>
                    (case ReadRune r1 of
                       (Inl err, r2) \<Rightarrow> (Some err, r2, buf)
                     | (Inr c2, r2) \<Rightarrow> (None, r2, buf @ [CHR 0x60])))
          else if bs ! 0 = CHR 0x60 \<and> bs ! 1 \<noteq> CHR 0x60 then (Some EOF, r0, buf)
          else (case ReadRune r0 of
                  (Inl err, r1) \<Rightarrow> (Some err, r1, buf)
                | (Inr c1, r1) \<Rightarrow> (None, r1, buf @ [bs ! 0])))"

function quotedIdentLoop :: "reader \<Rightarrow> string \<Rightarrow> perror option \<times> reader \<times> string" where
  "quotedIdentLoop r buf =
     (case readValidQuotedIdentRune r buf of
        (Some err, r', buf') \<Rightarrow> if err = EOF then (None, r', buf') else (Some err, r', buf')
      | (None, r', buf') \<Rightarrow> quotedIdentLoop r' buf')"
  by pat_completeness auto
termination
  by (relation "measure (\<lambda>(r, buf). length (unread r))")
    (auto simp: readValidQuotedIdentRune_def Peek_def ReadRune_def
      split: list.splits if_splits option.splits prod.splits)

definition readQuotedIdent :: "(string \<Rightarrow> 's \<Rightarrow> 's) \<Rightarrow> 's parseFunc" where
  "readQuotedIdent ident r s =
     (case readValidQuotedIdentRune r [] of
        (Some err, r', buf) \<Rightarrow> (Some err, r', s)
      | (None, r', buf) \<Rightarrow>
          (case quotedIdentLoop r' buf of
             (Some err, r'', buf') \<Rightarrow> (Some err, r'', s)
           | (None, r'', buf') \<Rightarrow> (None, r'', ident (ToLower buf') s)))"

definition expectQuote :: "'s parseFunc" where
  "expectQuote r s =
     (case ReadRune r of
        (Inl err, r') \<Rightarrow> (Some err, r', s)
      | (Inr ru, r') \<Rightarrow>
          if ru \<noteq> CHR 0x60 then (Some (ErrUnexpectedSyntax [CHR 0x60] [ru]), r', s)
          else (None, r', s))"

definition readQuotableIdent :: "(string \<Rightarrow> 's \<Rightarrow> 's) \<Rightarrow> 's parseFunc" where
  "readQuotableIdent ident r s =
     (case Peek 1 r of
        (nextChar, Some err, r0) \<Rightarrow> (Some err, r0, s)
      | (nextChar, None, r0) \<Rightarrow>
          (let steps = (if nextChar ! 0 = CHR 0x60
                        then [expectQuote, readQuotedIdent ident, expectQuote]
                        else [readIdent ident])
           in exec steps r0 s))"

text \<open>
  \<open>maybe\<close> looks ahead by the length of \<open>str\<close>. A look-ahead that comes back short is
  no match, whatever its error; the branch returning the error needs an error together
  with a full look-ahead. A match discards the bytes.
\<close>

definition maybe :: "(bool \<Rightarrow> 's \<Rightarrow> 's) \<Rightarrow> string \<Rightarrow> 's parseFunc" where
  "maybe matched str rd s =
     (let s0 = matched False s; strLength = length str
      in case Peek strLength rd of
           (data, Some err, rd0) \<Rightarrow>
             if length data < strLength then (None, rd0, s0) else (Some err, rd0, s0)
         | (data, None, rd0) \<Rightarrow>
             if ToLower data = str
             then (case Discard strLength rd0 of
                     (Some err, rd1) \<Rightarrow> (Some err, rd1, s0)
                   | (None, rd1) \<Rightarrow> (None, rd1, matched True s0))
             else (None, rd0, s0))"

text \<open>
  Three notions for stating what the quoted-identifier rule does, on the text after the
  opening backtick. \<open>unterminated\<close>: reading from the left, with a doubled backtick as
  an escape, the text ends before a single (closing) backtick is met. \<open>quoteIdent\<close>:
  an identifier with every backtick doubled, as it is written between the quotes.
  \<open>ascii\<close>: every byte is a single-byte rune, the text on which the reader above is
  the source's reader.
\<close>

fun unterminated :: "string \<Rightarrow> bool" where
  "unterminated [] = True"
| "unterminated [c] = (c \<noteq> CHR 0x60)"
| "unterminated (c # d # cs) =
     (if c = CHR 0x60 then d = CHR 0x60 \<and> unterminated cs else unterminated (d # cs))"

definition quoteIdent :: "string \<Rightarrow> string" where
  "quoteIdent str = concat (map (\<lambda>c. if c = CHR 0x60 then [CHR 0x60, CHR 0x60] else [c]) str)"

definition ascii :: "string \<Rightarrow> bool" where
  "ascii str = (\<forall>c\<in>set str. (of_char c :: nat) < 128)"

section \<open>Sample inputs\<close>

subsection \<open>A sample instance of the interfaces of in.go\<close>

text \<open>
  Concrete inputs for the evaluations below: three scalar type descriptors and the
  tuple descriptors over them, with conversions that pass NULL through, turn a boolean
  into 0 or 1 and an integer into its truth value, and reject everything else; a
  three-way comparison of two integers or two booleans that rejects every other pair
  (NULL included); one column for every scalar descriptor and for the nil descriptor.
\<close>

datatype sqltype = NULLTYPE | BOOLEAN | BIGINT | TUPLE "sqltype list"

fun sampleConvert :: "sqltype \<Rightarrow> val \<Rightarrow> error + val" where
  "sampleConvert t NULL = Inr NULL"
| "sampleConvert BIGINT (Int64 i) = Inr (Int64 i)"
| "sampleConvert BIGINT (Bool b) = Inr (Int64 (if b then 1 else 0))"
| "sampleConvert BOOLEAN (Bool b) = Inr (Bool b)"
| "sampleConvert BOOLEAN (Int64 i) = Inr (Bool (i \<noteq> 0))"
| "sampleConvert t v = Inl (ErrExternal ''value not convertible'')"

fun sampleCompare :: "sqltype \<Rightarrow> val \<Rightarrow> val \<Rightarrow> error + int" where
  "sampleCompare t (Int64 a) (Int64 b) = Inr (if a < b then - 1 else if a = b then 0 else 1)"
| "sampleCompare t (Bool a) (Bool b) = Inr (if a = b then 0 else if b then - 1 else 1)"
| "sampleCompare t a b = Inl (ErrExternal ''values not comparable'')"

fun sampleNumColumns :: "sqltype option \<Rightarrow> nat" where
  "sampleNumColumns (Some (TUPLE ts)) = length ts"
| "sampleNumColumns t = 1"

definition sampleTypes :: "sqltype typesys" where
  "sampleTypes =
     \<lparr>Convert = sampleConvert, Compare = sampleCompare, Promote = (\<lambda>t. t),
      NumColumns = sampleNumColumns, CreateTuple = TUPLE\<rparr>"

text \<open>
  Digits of a natural number in a base up to 16, for the Go syntax of integers
  (decimal) and of \<open>uint64\<close> (\<open>0x\<close> and hexadecimal).
\<close>

definition digit :: "nat \<Rightarrow> char" where
  "digit d = ''0123456789abcdef'' ! (d mod 16)"

function showBase :: "nat \<Rightarrow> nat \<Rightarrow> string" where
  "showBase b n =
     (if b < 2 \<or> n < b then [digit n] else showBase b (n div b) @ [digit (n mod b)])"
  by pat_completeness auto
termination
  by (relation "measure snd") auto

fun sampleSyntax :: "val \<Rightarrow> string" where
  "sampleSyntax NULL = ''<nil>''"
| "sampleSyntax (Bool b) = (if b then ''true'' else ''false'')"
| "sampleSyntax (Int64 i) = (if i < 0 then ''-'' @ showBase 10 (nat (- i)) else showBase 10 (nat i))"
| "sampleSyntax (Text s) = [CHR 0x22] @ s @ [CHR 0x22]"
| "sampleSyntax (Row vs) = ''[]interface {}{'' @ concat (map (\<lambda>v. sampleSyntax v @ '', '') vs) @ ''}''"

text \<open>A stand-in for the hash function: the bytes as a number in base 257, modulo \<open>2^64\<close>.\<close>

definition sampleHash :: "string \<Rightarrow> 64 word" where
  "sampleHash bs = foldl (\<lambda>h c. h * 257 + of_nat (of_char c) + 1) 0 bs"

definition sampleLib :: lib where
  "sampleLib =
     \<lparr>xxhash = sampleHash, gosyntax = sampleSyntax,
      gosyntax64 = (\<lambda>w. ''0x'' @ showBase 16 (unat w))\<rparr>"

section \<open>Properties of the IN evaluators\<close>

subsection \<open>Construction of the hashed node\<close>

lemma newInMap_hasNull: "newInMap lb ts e = Inr (m, hn, t) \<Longrightarrow> \<not> hn"
  by (auto simp: newInMap_def split: expr.splits sum.splits)

lemma NewHashInTuple_fields:
  "NewHashInTuple lb ts l r = Inr hit \<Longrightarrow> \<not> hasNull hit \<and> Left hit = l \<and> Right hit = r"
  by (auto simp: NewHashInTuple_def dest: newInMap_hasNull split: sum.splits)

lemma NewHashInTuple_operands:
  "NewHashInTuple lb ts l r = Inr hit \<Longrightarrow> Left hit = l \<and> Right hit = r"
  by (auto simp: NewHashInTuple_def split: sum.splits)

lemma NewHashInTuple_loop:
  "NewHashInTuple lb ts l (Tuple els) = Inr hit \<Longrightarrow>
   inMapLoop lb ts els Map.empty None = Inr (cmp hit, rightType hit)"
  by (auto simp: NewHashInTuple_def newInMap_def split: sum.splits)

text \<open>
  C2. The claim: construction records whether the candidate list contains a NULL
  literal, and the hashed evaluation of a list with a NULL literal is NULL whatever the
  left operand. The code at the candidate list \<open>[5, NULL]\<close> and the left literal \<open>5\<close>:
  construction succeeds with the flag \<open>hasNull\<close> unset, and the evaluation finds the
  hash of \<open>5\<close> in the map and returns true.
\<close>

theorem C2_hasNull_never_set:
  "(case NewHashInTuple sampleLib sampleTypes (Literal (Int64 5) BIGINT)
          (Tuple [Literal (Int64 5) BIGINT, Literal NULL NULLTYPE]) of
      Inl err \<Rightarrow> False
    | Inr hit \<Rightarrow> \<not> hasNull hit \<and> HashInTuple_Eval sampleLib sampleTypes hit [] = Inr (Bool True))"
  by code_simp

subsection \<open>Children\<close>

text \<open>
  C7. Both node kinds have two children; \<open>WithChildren\<close> with any other number of
  children fails with \<open>ErrInvalidChildrenNumber\<close> (carrying the number given and 2), and
  with two children it succeeds, returning the linear node over them.
\<close>

theorem C7_WithChildren_count:
  "length (InTuple_Children n) = 2 \<and> length (HashInTuple_Children hit) = 2 \<and>
   (length cs \<noteq> 2 \<longrightarrow>
      InTuple_WithChildren n cs = Inl (ErrInvalidChildrenNumber (length cs) 2) \<and>
      HashInTuple_WithChildren hit cs = Inl (ErrInvalidChildrenNumber (length cs) 2)) \<and>
   (length cs = 2 \<longrightarrow>
      (\<exists>l r. cs = [l, r] \<and> InTuple_WithChildren n cs = Inr (NewInTuple l r) \<and>
         HashInTuple_WithChildren hit cs = Inr (NewInTuple l r)))"
proof -
  have "\<exists>l r. cs = [l, r]" if "length cs = 2"
    using that by (cases cs; cases "tl cs") auto
  then show ?thesis
    by (auto simp: InTuple_Children_def HashInTuple_Children_def InTuple_WithChildren_def
        HashInTuple_WithChildren_def)
qed

theorem C7_WithChildren_count_witness:
  "InTuple_WithChildren (NewInTuple (Literal (Int64 1) BIGINT) (Tuple [])) [] =
     Inl (ErrInvalidChildrenNumber 0 2) \<and>
   HashInTuple_WithChildren
     \<lparr>Left = GetField 0 BIGINT, Right = Tuple [], cmp = Map.empty, hasNull = False,
      rightType = None\<rparr>
     [Literal (Int64 2) BIGINT, Tuple [Literal (Int64 2) BIGINT]] =
     Inr (NewInTuple (Literal (Int64 2) BIGINT) (Tuple [Literal (Int64 2) BIGINT]))"
  using
    C7_WithChildren_count [of "NewInTuple (Literal (Int64 1) BIGINT) (Tuple [])"
      "\<lparr>Left = GetField 0 BIGINT, Right = Tuple [], cmp = Map.empty, hasNull = False,
        rightType = None\<rparr>" "[]"]
    C7_WithChildren_count [of "NewInTuple (Literal (Int64 1) BIGINT) (Tuple [])"
      "\<lparr>Left = GetField 0 BIGINT, Right = Tuple [], cmp = Map.empty, hasNull = False,
        rightType = None\<rparr>" "[Literal (Int64 2) BIGINT, Tuple [Literal (Int64 2) BIGINT]]"]
  by simp

subsection \<open>The linear evaluator on an empty candidate list\<close>

text \<open>
  C10, as amended. When the left operand of a linear node evaluates without error to a
  value that is not NULL and that converts to the left operand's promoted type without
  error, and the right operand is the empty tuple, the evaluation returns false.
\<close>

theorem C10_empty_tuple_false:
  assumes "Eval (Left n) row = Inr v" and "v \<noteq> NULL"
    and "Convert ts (Promote ts (Type ts (Left n))) v = Inr v'"
    and "Right n = Tuple []"
  shows "InTuple_Eval ts n row = Inr (Bool False)"
  using assms by (simp add: InTuple_Eval_def)

theorem C10_empty_tuple_false_witness:
  "InTuple_Eval sampleTypes (NewInTuple (GetField 0 BIGINT) (Tuple [])) [Int64 7] = Inr (Bool False)"
  using C10_empty_tuple_false [of "NewInTuple (GetField 0 BIGINT) (Tuple [])" "[Int64 7]" "Int64 7"
      sampleTypes "Int64 7"]
  by (simp add: NewInTuple_def sampleTypes_def)

text \<open>
  The claim as stated fails where the conversion of the left value fails: the left
  literal evaluates to the string \<open>abc\<close>, which the integer type rejects, and the
  evaluation over the empty tuple returns the conversion's error.
\<close>

theorem C10_conversion_error_counterexample:
  "Eval (Literal (Text ''abc'') BIGINT) [] = Inr (Text ''abc'') \<and>
   InTuple_Eval sampleTypes (NewInTuple (Literal (Text ''abc'') BIGINT) (Tuple [])) [] =
     Inl (ErrExternal ''value not convertible'')"
  by (simp add: InTuple_Eval_def NewInTuple_def sampleTypes_def)

subsection \<open>The column check\<close>

lemma checkColumns_find:
  "find (\<lambda>el. NumColumns ts (Some (Type ts el)) \<noteq> k) els = Some el \<Longrightarrow>
   checkColumns ts k els = Some (ErrInvalidOperandColumns k (NumColumns ts (Some (Type ts el))))"
  by (induction els) (auto split: if_splits)

lemma checkColumns_none:
  "checkColumns ts k els = None \<longleftrightarrow> (\<forall>el\<in>set els. NumColumns ts (Some (Type ts el)) = k)"
  by (induction els) auto

text \<open>
  The loop of \<open>newInMap\<close> makes every candidate's promoted column count equal to that
  of the recorded type; where promotion keeps the candidates' column counts, every
  candidate has the column count of the recorded type.
\<close>

lemma inMapLoop_columns_Some:
  assumes "inMapLoop lb ts els m (Some t0) = Inr (m', t')"
    and "\<forall>el\<in>set els. NumColumns ts (Some (Promote ts (Type ts el))) =
           NumColumns ts (Some (Type ts el))"
  shows "t' = Some t0 \<and>
         (\<forall>el\<in>set els. NumColumns ts (Some (Type ts el)) = NumColumns ts (Some t0))"
  using assms
proof (induction els arbitrary: m)
  case Nil
  then show ?case by simp
next
  case (Cons el els)
  from Cons.prems(1) have c: "NumColumns ts (Some t0) = NumColumns ts (Some (Promote ts (Type ts el)))"
    by (simp add: Let_def split: if_splits)
  from Cons.prems(1) c obtain key where
    rec: "inMapLoop lb ts els (m(key \<mapsto> el)) (Some t0) = Inr (m', t')"
    by (auto simp: Let_def split: expr.splits sum.splits)
  from Cons.IH[OF rec] Cons.prems(2) c show ?case by simp
qed

lemma inMapLoop_columns:
  assumes "inMapLoop lb ts els m None = Inr (m', t')"
    and "\<forall>el\<in>set els. NumColumns ts (Some (Promote ts (Type ts el))) =
           NumColumns ts (Some (Type ts el))"
    and "el \<in> set els"
  shows "NumColumns ts (Some (Type ts el)) = NumColumns ts t'"
proof -
  from assms(3) obtain e rest where els: "els = e # rest" by (cases els) auto
  from assms(1) els obtain key where
    rec: "inMapLoop lb ts rest (m(key \<mapsto> e)) (Some (Type ts e)) = Inr (m', t')"
    by (auto split: expr.splits sum.splits)
  from inMapLoop_columns_Some[OF rec] assms(2) els
  have "t' = Some (Type ts e)"
    "\<forall>el\<in>set rest. NumColumns ts (Some (Type ts el)) = NumColumns ts (Some (Type ts e))"
    by auto
  with assms(3) els show ?thesis by auto
qed

text \<open>Normalisation of the left operand keeps its type.\<close>

lemma TransformUp_Type_gen:
  fixes e :: "'t expr" and es :: "'t expr list"
  shows "TransformUp f e = Inr e' \<Longrightarrow> f = fieldToLiteral row \<Longrightarrow> Type ts e' = Type ts e"
    and "TransformAll f es = Inr es' \<Longrightarrow> f = fieldToLiteral row \<Longrightarrow>
         map (Type ts) es' = map (Type ts) es"
proof (induction f e and f es arbitrary: e' and es' rule: TransformUp_TransformAll.induct)
  case (1 f)
  then show ?case by simp
next
  case (2 f c cs)
  then show ?case by (auto split: sum.splits)
next
  case (3 f v t)
  then show ?case by simp
next
  case (4 f i t)
  then show ?case by (auto split: if_splits)
next
  case (5 f t g)
  then show ?case by simp
next
  case (6 f)
  then show ?case by simp
next
  case (7 f c cs)
  then show ?case by (auto split: sum.splits)
qed

lemma TransformUp_Type:
  "TransformUp (fieldToLiteral row) e = Inr e' \<Longrightarrow> Type ts e' = Type ts e"
  by (rule TransformUp_Type_gen(1)[OF _ refl])

lemma normalizeLeft_Type:
  "normalizeLeft l row = Inr left \<Longrightarrow> Type ts left = Type ts l"
  by (cases l) (auto dest: TransformUp_Type split: if_splits simp del: TransformUp.simps)

text \<open>
  C5, as amended. When some candidate's column count differs from the left operand's
  promoted column count, the evaluation fails with \<open>ErrInvalidOperandColumns\<close> and no
  candidate is evaluated or compared. Linear node: this holds when the left operand
  evaluates to a value that is not NULL and that converts to the promoted type without
  error; the check is one pass over all candidates and reports the first one that
  differs. Hashed node: this holds when the NULL flag of the node is not set, the
  normalisation of the left operand succeeds and promotion keeps the candidates' column
  counts; the check is one comparison with the recorded right-hand type, made before
  the left value is hashed.
\<close>

theorem C5_column_check:
  "(Eval (Left n) row = Inr v \<and> v \<noteq> NULL \<and>
    Convert ts (Promote ts (Type ts (Left n))) v = Inr v' \<and> Right n = Tuple els \<and>
    find (\<lambda>el. NumColumns ts (Some (Type ts el)) \<noteq>
                NumColumns ts (Some (Promote ts (Type ts (Left n))))) els = Some el
    \<longrightarrow> InTuple_Eval ts n row =
          Inl (ErrInvalidOperandColumns (NumColumns ts (Some (Promote ts (Type ts (Left n)))))
                 (NumColumns ts (Some (Type ts el))))) \<and>
   (NewHashInTuple lb ts l (Tuple cands) = Inr hit \<and> \<not> hasNull hit \<and>
    normalizeLeft l row = Inr left \<and>
    (\<forall>c\<in>set cands. NumColumns ts (Some (Promote ts (Type ts c))) =
                      NumColumns ts (Some (Type ts c))) \<and>
    cand \<in> set cands \<and>
    NumColumns ts (Some (Type ts cand)) \<noteq> NumColumns ts (Some (Promote ts (Type ts l)))
    \<longrightarrow> HashInTuple_Eval lb ts hit row =
          Inl (ErrInvalidOperandColumns (NumColumns ts (Some (Promote ts (Type ts l))))
                 (NumColumns ts (Some (Type ts cand)))))"
proof (intro conjI impI)
  assume "Eval (Left n) row = Inr v \<and> v \<noteq> NULL \<and>
    Convert ts (Promote ts (Type ts (Left n))) v = Inr v' \<and> Right n = Tuple els \<and>
    find (\<lambda>el. NumColumns ts (Some (Type ts el)) \<noteq>
                NumColumns ts (Some (Promote ts (Type ts (Left n))))) els = Some el"
  then show "InTuple_Eval ts n row =
          Inl (ErrInvalidOperandColumns (NumColumns ts (Some (Promote ts (Type ts (Left n)))))
                 (NumColumns ts (Some (Type ts el))))"
    by (simp add: InTuple_Eval_def checkColumns_find)
next
  assume b: "NewHashInTuple lb ts l (Tuple cands) = Inr hit \<and> \<not> hasNull hit \<and>
    normalizeLeft l row = Inr left \<and>
    (\<forall>c\<in>set cands. NumColumns ts (Some (Promote ts (Type ts c))) =
                      NumColumns ts (Some (Type ts c))) \<and>
    cand \<in> set cands \<and>
    NumColumns ts (Some (Type ts cand)) \<noteq> NumColumns ts (Some (Promote ts (Type ts l)))"
  then have lh: "Left hit = l"
    using NewHashInTuple_operands by blast
  from b have loop: "inMapLoop lb ts cands Map.empty None = Inr (cmp hit, rightType hit)"
    using NewHashInTuple_loop by blast
  from b have cols: "NumColumns ts (Some (Type ts cand)) = NumColumns ts (rightType hit)"
    using inMapLoop_columns[OF loop] by blast
  from b have ty: "Type ts left = Type ts l"
    using normalizeLeft_Type by blast
  from b lh cols ty show "HashInTuple_Eval lb ts hit row =
          Inl (ErrInvalidOperandColumns (NumColumns ts (Some (Promote ts (Type ts l))))
                 (NumColumns ts (Some (Type ts cand))))"
    by (simp add: HashInTuple_Eval_def)
qed

theorem C5_column_check_witness:
  "InTuple_Eval sampleTypes
     (NewInTuple (Literal (Int64 7) BIGINT)
        (Tuple [Other BIGINT (\<lambda>row. Inl (ErrExternal ''not evaluated'')),
                Tuple [Literal (Int64 7) BIGINT, Literal (Int64 8) BIGINT]])) [] =
     Inl (ErrInvalidOperandColumns 1 2) \<and>
   (case NewHashInTuple sampleLib sampleTypes (GetField 0 BIGINT)
           (Tuple [Tuple [Literal (Int64 7) BIGINT, Literal (Int64 8) BIGINT]]) of
      Inl err \<Rightarrow> False
    | Inr hit \<Rightarrow> HashInTuple_Eval sampleLib sampleTypes hit [Int64 7] =
        Inl (ErrInvalidOperandColumns 1 2))"
proof -
  have lin: "InTuple_Eval sampleTypes
     (NewInTuple (Literal (Int64 7) BIGINT)
        (Tuple [Other BIGINT (\<lambda>row. Inl (ErrExternal ''not evaluated'')),
                Tuple [Literal (Int64 7) BIGINT, Literal (Int64 8) BIGINT]])) [] =
     Inl (ErrInvalidOperandColumns 1 2)"
    using C5_column_check [of "NewInTuple (Literal (Int64 7) BIGINT)
        (Tuple [Other BIGINT (\<lambda>row. Inl (ErrExternal ''not evaluated'')),
                Tuple [Literal (Int64 7) BIGINT, Literal (Int64 8) BIGINT]])" "[]" "Int64 7"
        sampleTypes "Int64 7"
        "[Other BIGINT (\<lambda>row. Inl (ErrExternal ''not evaluated'')),
                Tuple [Literal (Int64 7) BIGINT, Literal (Int64 8) BIGINT]]"
        "Tuple [Literal (Int64 7) BIGINT, Literal (Int64 8) BIGINT]"]
    by (simp add: NewInTuple_def sampleTypes_def)
  obtain hit where hit: "NewHashInTuple sampleLib sampleTypes (GetField 0 BIGINT)
           (Tuple [Tuple [Literal (Int64 7) BIGINT, Literal (Int64 8) BIGINT]]) = Inr hit"
     and hn: "\<not> hasNull hit"
    by (simp add: NewHashInTuple_def newInMap_def sampleTypes_def)
  have "HashInTuple_Eval sampleLib sampleTypes hit [Int64 7] = Inl (ErrInvalidOperandColumns 1 2)"
    using C5_column_check [where ts = sampleTypes and lb = sampleLib and l = "GetField 0 BIGINT"
        and cands = "[Tuple [Literal (Int64 7) BIGINT, Literal (Int64 8) BIGINT]]"
        and cand = "Tuple [Literal (Int64 7) BIGINT, Literal (Int64 8) BIGINT]"
        and hit = hit and row = "[Int64 7]" and left = "Literal (Int64 7) BIGINT"] hit hn
    by (simp add: sampleTypes_def)
  with lin hit show ?thesis by simp
qed

text \<open>
  The claim as stated fails where the conversion of the left value fails: the
  conversion comes before the column check, so a left literal \<open>abc\<close> of the integer
  type against a candidate of two columns returns the conversion's error.
\<close>

theorem C5_conversion_first_counterexample:
  "Eval (Literal (Text ''abc'') BIGINT) [] = Inr (Text ''abc'') \<and>
   NumColumns sampleTypes
     (Some (Type sampleTypes (Tuple [Literal (Int64 1) BIGINT, Literal (Int64 2) BIGINT]))) = 2 \<and>
   NumColumns sampleTypes
     (Some (Promote sampleTypes (Type sampleTypes (Literal (Text ''abc'') BIGINT)))) = 1 \<and>
   InTuple_Eval sampleTypes
     (NewInTuple (Literal (Text ''abc'') BIGINT)
        (Tuple [Tuple [Literal (Int64 1) BIGINT, Literal (Int64 2) BIGINT]])) [] =
     Inl (ErrExternal ''value not convertible'')"
  by (simp add: InTuple_Eval_def NewInTuple_def sampleTypes_def)

subsection \<open>NULL candidates of the linear evaluator\<close>

text \<open>
  The loop on a candidate list in which at most one candidate evaluates to NULL (none
  when a NULL was seen before), every candidate evaluating without error and every
  other value converting and comparing without error: true if some candidate that is
  not NULL compares equal, else NULL if a NULL candidate was seen, else false.
\<close>

lemma evalCandidates_single_null:
  assumes "\<forall>el\<in>set els. \<exists>v. Eval el row = Inr v \<and>
             (v \<noteq> NULL \<longrightarrow> (\<exists>v' c. Convert ts typ v = Inr v' \<and> Compare ts typ left v' = Inr c))"
    and "length (filter (\<lambda>el. Eval el row = Inr NULL) els) \<le> (if rn then 0 else 1)"
  shows "evalCandidates ts typ left row rn els =
     (if \<exists>el\<in>set els. \<exists>v v'. Eval el row = Inr v \<and> v \<noteq> NULL \<and> Convert ts typ v = Inr v' \<and>
            Compare ts typ left v' = Inr 0
      then Inr (Bool True)
      else if rn \<or> (\<exists>el\<in>set els. Eval el row = Inr NULL) then Inr NULL
      else Inr (Bool False))"
  using assms
proof (induction els arbitrary: rn)
  case Nil
  then show ?case by simp
next
  case (Cons el els)
  from Cons.prems(1) obtain v where v: "Eval el row = Inr v" by auto
  show ?case
  proof (cases "v = NULL")
    case True
    with v Cons.prems(2) have rn: "\<not> rn"
      and nn: "length (filter (\<lambda>el. Eval el row = Inr NULL) els) \<le> (if True then 0 else 1)"
      by (auto split: if_splits)
    have "evalCandidates ts typ left row True els =
       (if \<exists>el\<in>set els. \<exists>v v'. Eval el row = Inr v \<and> v \<noteq> NULL \<and> Convert ts typ v = Inr v' \<and>
            Compare ts typ left v' = Inr 0
        then Inr (Bool True)
        else if True \<or> (\<exists>el\<in>set els. Eval el row = Inr NULL) then Inr NULL
        else Inr (Bool False))"
      using Cons.IH[of True] Cons.prems(1) nn by simp
    with v True rn show ?thesis by simp
  next
    case False
    with v Cons.prems(1) obtain v' c
      where vc: "Convert ts typ v = Inr v'" "Compare ts typ left v' = Inr c"
      by auto
    from v False Cons.prems(2)
    have nn: "length (filter (\<lambda>el. Eval el row = Inr NULL) els) \<le> (if rn then 0 else 1)"
      by simp
    have ih: "evalCandidates ts typ left row rn els =
       (if \<exists>el\<in>set els. \<exists>v v'. Eval el row = Inr v \<and> v \<noteq> NULL \<and> Convert ts typ v = Inr v' \<and>
            Compare ts typ left v' = Inr 0
        then Inr (Bool True)
        else if rn \<or> (\<exists>el\<in>set els. Eval el row = Inr NULL) then Inr NULL
        else Inr (Bool False))"
      using Cons.IH[of rn] Cons.prems(1) nn by simp
    show ?thesis
    proof (cases "c = 0")
      case True
      with v False vc show ?thesis by auto
    next
      case c: False
      with v False vc ih show ?thesis by auto
    qed
  qed
qed

text \<open>
  The same for the whole evaluation: a left value that is not NULL and converts, the
  column check passed, and at most one candidate evaluating to NULL.
\<close>

lemma InTuple_Eval_single_null:
  assumes "Eval (Left n) row = Inr v" and "v \<noteq> NULL"
    and "Convert ts (Promote ts (Type ts (Left n))) v = Inr left"
    and "Right n = Tuple els"
    and "\<forall>el\<in>set els. NumColumns ts (Some (Type ts el)) =
           NumColumns ts (Some (Promote ts (Type ts (Left n))))"
    and "\<forall>el\<in>set els. \<exists>v. Eval el row = Inr v \<and>
           (v \<noteq> NULL \<longrightarrow> (\<exists>v' c. Convert ts (Promote ts (Type ts (Left n))) v = Inr v' \<and>
              Compare ts (Promote ts (Type ts (Left n))) left v' = Inr c))"
    and "length (filter (\<lambda>el. Eval el row = Inr NULL) els) \<le> 1"
  shows "InTuple_Eval ts n row =
     (if \<exists>el\<in>set els. \<exists>v v'. Eval el row = Inr v \<and> v \<noteq> NULL \<and>
            Convert ts (Promote ts (Type ts (Left n))) v = Inr v' \<and>
            Compare ts (Promote ts (Type ts (Left n))) left v' = Inr 0
      then Inr (Bool True)
      else if \<exists>el\<in>set els. Eval el row = Inr NULL then Inr NULL
      else Inr (Bool False))"
proof -
  have cols: "checkColumns ts (NumColumns ts (Some (Promote ts (Type ts (Left n))))) els = None"
    using assms(5) by (simp add: checkColumns_none)
  have ev: "InTuple_Eval ts n row =
      evalCandidates ts (Promote ts (Type ts (Left n))) left row False els"
    using assms(1-4) cols by (simp add: InTuple_Eval_def Let_def)
  have "evalCandidates ts (Promote ts (Type ts (Left n))) left row False els =
     (if \<exists>el\<in>set els. \<exists>v v'. Eval el row = Inr v \<and> v \<noteq> NULL \<and>
            Convert ts (Promote ts (Type ts (Left n))) v = Inr v' \<and>
            Compare ts (Promote ts (Type ts (Left n))) left v' = Inr 0
      then Inr (Bool True)
      else if False \<or> (\<exists>el\<in>set els. Eval el row = Inr NULL) then Inr NULL
      else Inr (Bool False))"
    using assms(6,7) by (intro evalCandidates_single_null) simp_all
  with ev show ?thesis
    by simp
qed

text \<open>The two examples of the claim: left \<open>5\<close> and left \<open>7\<close> against \<open>[NULL, 5]\<close>.\<close>

lemma InTuple_null_then_match:
  "InTuple_Eval sampleTypes
     (NewInTuple (Literal (Int64 5) BIGINT) (Tuple [Literal NULL NULLTYPE, Literal (Int64 5) BIGINT]))
     row = Inr (Bool True)"
  by (simp add: InTuple_Eval_def NewInTuple_def sampleTypes_def)

lemma InTuple_null_no_match:
  "InTuple_Eval sampleTypes
     (NewInTuple (Literal (Int64 7) BIGINT) (Tuple [Literal NULL NULLTYPE, Literal (Int64 5) BIGINT]))
     row = Inr NULL"
  by (simp add: InTuple_Eval_def NewInTuple_def sampleTypes_def)

text \<open>
  Once a NULL candidate has been seen, \<open>!rightNull && right == nil\<close> is false for
  every later NULL candidate: it is passed to \<open>Convert\<close> and \<open>Compare\<close> like any other
  value.
\<close>

lemma evalCandidates_later_null:
  "Eval el row = Inr NULL \<Longrightarrow>
   evalCandidates ts typ left row True (el # els) =
     (case Convert ts typ NULL of
        Inl err \<Rightarrow> Inl err
      | Inr right' \<Rightarrow>
          (case Compare ts typ left right' of
             Inl err \<Rightarrow> Inl err
           | Inr c \<Rightarrow> if c = 0 then Inr (Bool True) else evalCandidates ts typ left row True els))"
  by simp

text \<open>
  C1. The claim: every candidate that evaluates to NULL is skipped without conversion
  or comparison, and the result without a match is NULL when a NULL candidate was seen.
  The code at left \<open>7\<close> and the candidate list \<open>[NULL, NULL]\<close>: the first NULL is
  skipped, the second is converted and compared with \<open>7\<close>, and the comparison's error
  (the sample comparison rejects NULL) is the result.
\<close>

theorem C1_later_null_compared:
  "InTuple_Eval sampleTypes
     (NewInTuple (Literal (Int64 7) BIGINT) (Tuple [Literal NULL NULLTYPE, Literal NULL NULLTYPE])) [] =
   Inl (ErrExternal ''values not comparable'')"
  by (simp add: InTuple_Eval_def NewInTuple_def sampleTypes_def)

subsection \<open>Rebuilding a node from its own children\<close>

text \<open>
  C6, as amended. For a linear node, \<open>WithChildren\<close> applied to the node's own children
  returns the node itself, so the evaluation is unchanged on every row. For a hashed
  node, the \<open>WithChildren\<close> it inherits returns the linear node over the same operands;
  the map, the flag and the right-hand type are dropped.
\<close>

theorem C6_WithChildren_round_trip:
  "(case InTuple_WithChildren n (InTuple_Children n) of
      Inl err \<Rightarrow> False
    | Inr m \<Rightarrow> m = n \<and> InTuple_Eval ts m row = InTuple_Eval ts n row) \<and>
   HashInTuple_WithChildren hit (HashInTuple_Children hit) = Inr (NewInTuple (Left hit) (Right hit))"
proof -
  have same: "NewInTuple (Left n) (Right n) = n"
    by (simp add: NewInTuple_def)
  have "InTuple_WithChildren n (InTuple_Children n) = Inr n"
    by (simp add: InTuple_WithChildren_def InTuple_Children_def same)
  moreover have "HashInTuple_WithChildren hit (HashInTuple_Children hit) =
      Inr (NewInTuple (Left hit) (Right hit))"
    by (simp add: InTuple_WithChildren_def InTuple_Children_def HashInTuple_WithChildren_def
        HashInTuple_Children_def InTuple.truncate_def)
  ultimately show ?thesis by simp
qed

text \<open>
  The claim as stated fails for a hashed node: with a field as left operand, one
  candidate of two columns and a row whose field is NULL, the hashed node fails the
  column check, which it makes before it evaluates the left operand, while the node
  \<open>WithChildren\<close> returns is linear and returns NULL.
\<close>

theorem C6_hashed_round_trip_counterexample:
  "(case NewHashInTuple sampleLib sampleTypes (GetField 0 BIGINT)
          (Tuple [Tuple [Literal (Int64 1) BIGINT, Literal (Int64 2) BIGINT]]) of
      Inl err \<Rightarrow> False
    | Inr hit \<Rightarrow>
        (case HashInTuple_WithChildren hit (HashInTuple_Children hit) of
           Inl err \<Rightarrow> False
         | Inr m \<Rightarrow>
             HashInTuple_Eval sampleLib sampleTypes hit [NULL] = Inl (ErrInvalidOperandColumns 1 2) \<and>
             InTuple_Eval sampleTypes m [NULL] = Inr NULL))"
  by (simp add: NewHashInTuple_def newInMap_def sampleTypes_def HashInTuple_Eval_def
      HashInTuple_WithChildren_def HashInTuple_Children_def InTuple_WithChildren_def
      InTuple_Children_def InTuple.truncate_def NewInTuple_def InTuple_Eval_def)

subsection \<open>The hash of literals and tuples\<close>

text \<open>
  A literal is hashed through its converted value: two literals with the same converted
  value have the same hash.
\<close>

lemma hashOf_literal_same_conversion:
  "Convert ts t a = Inr c \<Longrightarrow> Convert ts t b = Inr c \<Longrightarrow>
   hashOf lb ts (Literal a ta) (Some t) = Inr (xxhash lb (gosyntax lb c @ '','')) \<and>
   hashOf lb ts (Literal a ta) (Some t) = hashOf lb ts (Literal b tb) (Some t)"
  by (simp add: hashOfLiteral_def)

text \<open>
  A tuple of literals is hashed through the stored values, whatever the literals' types
  and the type passed to \<open>hashOf\<close>: nothing is converted.
\<close>

lemma tupleWrites_literals:
  "tupleWrites lb (map (\<lambda>(v, t). Literal v t) xs) = concat (map (\<lambda>(v, t). gosyntax lb v @ '','') xs)"
  by (induction xs) auto

lemma hashOf_tuple_ignores_types:
  "hashOf lb ts (Tuple (map (\<lambda>(v, t). Literal v t) xs)) t =
   Inr (xxhash lb (concat (map (\<lambda>(v, t). gosyntax lb v @ '','') xs)))"
  by (simp add: tupleWrites_literals)

text \<open>
  C4. The claim: values that compare equal after conversion to the unified type hash
  identically, tuples element by element. The code at the tuples \<open>(true, 2)\<close> and
  \<open>(1, 2)\<close> under the integer type: \<open>true\<close> and \<open>1\<close> both convert to \<open>1\<close> and compare
  equal, and as single literals they have the same hash; the two tuples have different
  hashes, because \<open>hashOfTuple\<close> writes the stored values without converting them.
\<close>

theorem C4_tuple_hash_unconverted:
  "Convert sampleTypes BIGINT (Bool True) = Inr (Int64 1) \<and>
   Convert sampleTypes BIGINT (Int64 1) = Inr (Int64 1) \<and>
   Compare sampleTypes BIGINT (Int64 1) (Int64 1) = Inr 0 \<and>
   hashOf sampleLib sampleTypes (Literal (Bool True) BOOLEAN) (Some BIGINT) =
     hashOf sampleLib sampleTypes (Literal (Int64 1) BIGINT) (Some BIGINT) \<and>
   hashOf sampleLib sampleTypes (Tuple [Literal (Bool True) BOOLEAN, Literal (Int64 2) BIGINT])
       (Some (TUPLE [BIGINT, BIGINT])) \<noteq>
     hashOf sampleLib sampleTypes (Tuple [Literal (Int64 1) BIGINT, Literal (Int64 2) BIGINT])
       (Some (TUPLE [BIGINT, BIGINT]))"
  by code_simp

subsection \<open>Agreement of the hashed and the linear evaluator\<close>

text \<open>
  The map built over a list of literals: the type stays that of the first candidate,
  every candidate converts to it, and the keys are the hashes of the converted values.
\<close>

lemma inMapLoop_first:
  "inMapLoop lb ts (Literal c1 t1 # rest) m None =
     (case Convert ts t1 c1 of
        Inl err \<Rightarrow> Inl ErrUnsupportedHashInSubexpression
      | Inr d \<Rightarrow>
          inMapLoop lb ts rest (m(xxhash lb (gosyntax lb d @ '','') \<mapsto> Literal c1 t1)) (Some t1))"
  by (simp add: hashOfLiteral_def split: sum.splits)

lemma inMapLoop_literals:
  assumes "\<forall>el\<in>set els. \<exists>c t. el = Literal c t"
    and "inMapLoop lb ts els m (Some t1) = Inr (m', t')"
  shows "t' = Some t1 \<and>
         (\<forall>c t. Literal c t \<in> set els \<longrightarrow> (\<exists>d. Convert ts t1 c = Inr d)) \<and>
         dom m' = dom m \<union> {k. \<exists>c t d. Literal c t \<in> set els \<and> Convert ts t1 c = Inr d \<and>
                                 k = xxhash lb (gosyntax lb d @ '','')}"
  using assms
proof (induction els arbitrary: m)
  case Nil
  then show ?case by simp
next
  case (Cons el els)
  obtain c t where el: "el = Literal c t"
    using Cons.prems(1) by auto
  from Cons.prems(2) el obtain d where d: "Convert ts t1 c = Inr d"
    and rec: "inMapLoop lb ts els (m(xxhash lb (gosyntax lb d @ '','') \<mapsto> el)) (Some t1) = Inr (m', t')"
    by (auto simp: hashOfLiteral_def Let_def split: sum.splits if_splits)
  from Cons.prems(1) have lits: "\<forall>el\<in>set els. \<exists>c t. el = Literal c t"
    by simp
  note ih = Cons.IH[OF lits rec]
  have t': "t' = Some t1" using ih by simp
  have conv: "\<forall>c' t. Literal c' t \<in> set (el # els) \<longrightarrow> (\<exists>d. Convert ts t1 c' = Inr d)"
    using ih el d by auto
  have "dom m' = insert (xxhash lb (gosyntax lb d @ '','')) (dom m) \<union>
      {k. \<exists>c t d. Literal c t \<in> set els \<and> Convert ts t1 c = Inr d \<and>
                                 k = xxhash lb (gosyntax lb d @ '','')}"
    using ih by (auto simp: dom_def split: if_splits)
  also have "\<dots> = dom m \<union> {k. \<exists>c t d. Literal c t \<in> set (el # els) \<and> Convert ts t1 c = Inr d \<and>
                                 k = xxhash lb (gosyntax lb d @ '','')}"
    using el d by auto
  finally show ?case using t' conv by blast
qed

text \<open>
  Where the two evaluators agree: a node whose NULL flag is not set, over a non-empty
  candidate list of literals, none of them NULL, and a left operand that is a literal or
  a field; every candidate with the left
  operand's promoted column count; the conversion to the first candidate's type (the one
  the hashed node uses) and the conversion to the left operand's promoted type (the one
  the linear node uses) agreeing on the left value and on every candidate; and hashing
  exact on them, the comparison of the converted left value with a converted candidate
  succeeding and returning 0 exactly when their hashes are equal.
\<close>

lemma hashed_agrees_with_linear:
  assumes built: "NewHashInTuple lb ts left (Tuple els) = Inr hit"
    and flag: "\<not> hasNull hit"
    and nonempty: "els = Literal cf tf # rest"
    and left: "left = Literal lv lt \<or> left = GetField i lt"
    and cands: "\<forall>el\<in>set els. \<exists>c t. el = Literal c t \<and> c \<noteq> NULL \<and>
                  NumColumns ts (Some t) = NumColumns ts (Some (Promote ts lt)) \<and>
                  Convert ts (Promote ts lt) c = Convert ts tf c"
    and leftconv: "\<forall>v. Eval left row = Inr v \<longrightarrow> Convert ts (Promote ts lt) v = Convert ts tf v"
    and exact: "\<forall>v v' c t d. Eval left row = Inr v \<and> Convert ts tf v = Inr v' \<and>
                  Literal c t \<in> set els \<and> Convert ts tf c = Inr d \<longrightarrow>
                  (\<exists>n. Compare ts (Promote ts lt) v' d = Inr n \<and>
                     ((n = 0) = (xxhash lb (gosyntax lb v' @ '','') = xxhash lb (gosyntax lb d @ '',''))))"
  shows "HashInTuple_Eval lb ts hit row = InTuple_Eval ts (NewInTuple left (Tuple els)) row"
proof -
  from built flag have flds: "\<not> hasNull hit" "Left hit = left"
    using NewHashInTuple_operands by blast+
  have ty: "Type ts left = lt" using left by auto
  have lits: "\<forall>el\<in>set rest. \<exists>c t. el = Literal c t"
    using cands nonempty by auto
  from NewHashInTuple_loop[OF built] nonempty
  obtain df where df: "Convert ts tf cf = Inr df"
    and loop: "inMapLoop lb ts rest [xxhash lb (gosyntax lb df @ '','') \<mapsto> Literal cf tf] (Some tf) =
                 Inr (cmp hit, rightType hit)"
    by (auto simp: hashOfLiteral_def split: sum.splits)
  note ml = inMapLoop_literals[OF lits loop]
  have rt: "rightType hit = Some tf" using ml by simp
  have conv: "\<forall>c t. Literal c t \<in> set els \<longrightarrow> (\<exists>d. Convert ts tf c = Inr d)"
    using ml df nonempty by auto
  have dom: "dom (cmp hit) = {k. \<exists>c t d. Literal c t \<in> set els \<and> Convert ts tf c = Inr d \<and>
                                 k = xxhash lb (gosyntax lb d @ '','')}"
    using ml df nonempty by auto
  have cols: "checkColumns ts (NumColumns ts (Some (Promote ts lt))) els = None"
    using cands by (auto simp: checkColumns_none)
  have col1: "NumColumns ts (Some tf) = NumColumns ts (Some (Promote ts lt))"
    using cands nonempty by auto
  show ?thesis
  proof (cases "Eval left row")
    case (Inl err)
    with left obtain "left = GetField i lt" by auto
    with Inl flds show ?thesis
      by (simp add: HashInTuple_Eval_def InTuple_Eval_def NewInTuple_def)
  next
    case (Inr v)
    have norm: "normalizeLeft left row = Inr (Literal v lt)"
      using left Inr by (auto split: if_splits)
    show ?thesis
    proof (cases "v = NULL")
      case True
      with Inr norm flds rt col1 ty show ?thesis
        by (simp add: HashInTuple_Eval_def InTuple_Eval_def NewInTuple_def)
    next
      case False
      show ?thesis
      proof (cases "Convert ts tf v")
        case (Inl err)
        with leftconv Inr have "Convert ts (Promote ts lt) v = Inl err" by simp
        with Inl Inr norm flds rt col1 ty False show ?thesis
          by (simp add: HashInTuple_Eval_def InTuple_Eval_def NewInTuple_def hashOfLiteral_def)
      next
        case c: (Inr v')
        with leftconv Inr have lc: "Convert ts (Promote ts lt) v = Inr v'" by simp
        let ?key = "xxhash lb (gosyntax lb v' @ '','')"
        have hashed: "HashInTuple_Eval lb ts hit row = Inr (Bool (?key \<in> dom (cmp hit)))"
          using c Inr norm flds rt col1 ty False
          by (auto simp: HashInTuple_Eval_def hashOfLiteral_def split: option.splits)
        have pre: "\<forall>el\<in>set els. \<exists>w. Eval el row = Inr w \<and>
             (w \<noteq> NULL \<longrightarrow> (\<exists>w' n. Convert ts (Promote ts lt) w = Inr w' \<and>
                 Compare ts (Promote ts lt) v' w' = Inr n))"
        proof
          fix el assume el: "el \<in> set els"
          with cands obtain c0 t0 where e: "el = Literal c0 t0" "c0 \<noteq> NULL"
            "Convert ts (Promote ts lt) c0 = Convert ts tf c0" by blast
          with conv el obtain d where d: "Convert ts tf c0 = Inr d" by blast
          with exact Inr c el e obtain n where "Compare ts (Promote ts lt) v' d = Inr n" by blast
          with e d show "\<exists>w. Eval el row = Inr w \<and>
             (w \<noteq> NULL \<longrightarrow> (\<exists>w' n. Convert ts (Promote ts lt) w = Inr w' \<and>
                 Compare ts (Promote ts lt) v' w' = Inr n))" by simp
        qed
        have nonull: "filter (\<lambda>el. Eval el row = Inr NULL) els = []"
          using cands by (auto simp: filter_empty_conv)
        have match: "(\<exists>el\<in>set els. \<exists>w w'. Eval el row = Inr w \<and> w \<noteq> NULL \<and>
              Convert ts (Promote ts lt) w = Inr w' \<and> Compare ts (Promote ts lt) v' w' = Inr 0)
            \<longleftrightarrow> ?key \<in> dom (cmp hit)" (is "?L \<longleftrightarrow> ?R")
        proof
          assume ?L
          then obtain el w w' where el: "el \<in> set els" "Eval el row = Inr w" "w \<noteq> NULL"
            "Convert ts (Promote ts lt) w = Inr w'" "Compare ts (Promote ts lt) v' w' = Inr 0" by blast
          with cands obtain t0 where e: "el = Literal w t0"
            "Convert ts (Promote ts lt) w = Convert ts tf w" by fastforce
          with el have d: "Convert ts tf w = Inr w'" by simp
          from exact Inr c el(1) e(1) d obtain n where "Compare ts (Promote ts lt) v' w' = Inr n"
            "(n = 0) = (?key = xxhash lb (gosyntax lb w' @ '',''))" by blast
          with el(5) have "?key = xxhash lb (gosyntax lb w' @ '','')" by simp
          with el(1) e(1) d show ?R unfolding dom by blast
        next
          assume ?R
          then obtain c0 t0 d where m: "Literal c0 t0 \<in> set els" "Convert ts tf c0 = Inr d"
            "?key = xxhash lb (gosyntax lb d @ '','')" unfolding dom by blast
          from exact Inr c m(1,2) obtain n where n: "Compare ts (Promote ts lt) v' d = Inr n"
            "(n = 0) = (?key = xxhash lb (gosyntax lb d @ '',''))" by blast
          with m(3) have "Compare ts (Promote ts lt) v' d = Inr 0" by simp
          moreover from cands m(1) have "c0 \<noteq> NULL" "Convert ts (Promote ts lt) c0 = Convert ts tf c0"
            by fastforce+
          ultimately show ?L using m(1,2) by (intro bexI[of _ "Literal c0 t0"]) auto
        qed
        have "evalCandidates ts (Promote ts lt) v' row False els = Inr (Bool (?key \<in> dom (cmp hit)))"
          using evalCandidates_single_null[of els row ts "Promote ts lt" v' False, OF pre]
            nonull match cands
          by (auto simp: filter_empty_conv)
        then have "InTuple_Eval ts (NewInTuple left (Tuple els)) row =
            Inr (Bool (?key \<in> dom (cmp hit)))"
          using Inr False lc cols ty by (simp add: InTuple_Eval_def NewInTuple_def)
        with hashed show ?thesis by simp
      qed
    qed
  qed
qed


lemma hashed_agrees_with_linear_example:
  "(case NewHashInTuple sampleLib sampleTypes (GetField 0 BIGINT)
          (Tuple [Literal (Int64 3) BIGINT, Literal (Bool True) BOOLEAN, Literal (Int64 5) BIGINT,
                  Literal (Int64 5) BIGINT]) of
      Inl err \<Rightarrow> False
    | Inr hit \<Rightarrow>
        HashInTuple_Eval sampleLib sampleTypes hit [Int64 5] =
          InTuple_Eval sampleTypes
            (NewInTuple (GetField 0 BIGINT)
               (Tuple [Literal (Int64 3) BIGINT, Literal (Bool True) BOOLEAN,
                       Literal (Int64 5) BIGINT, Literal (Int64 5) BIGINT])) [Int64 5] \<and>
        HashInTuple_Eval sampleLib sampleTypes hit [Int64 5] = Inr (Bool True))"
proof -
  let ?els = "[Literal (Int64 3) BIGINT, Literal (Bool True) BOOLEAN, Literal (Int64 5) BIGINT,
               Literal (Int64 5) BIGINT]"
  have h1: "xxhash sampleLib (gosyntax sampleLib (Int64 1) @ '','') = 12895"
    and h3: "xxhash sampleLib (gosyntax sampleLib (Int64 3) @ '','') = 13409"
    and h5: "xxhash sampleLib (gosyntax sampleLib (Int64 5) @ '','') = 13923"
    by code_simp+
  obtain hit where hit: "NewHashInTuple sampleLib sampleTypes (GetField 0 BIGINT) (Tuple ?els) = Inr hit"
    and hn: "\<not> hasNull hit"
    by (simp add: NewHashInTuple_def newInMap_def sampleTypes_def hashOfLiteral_def)
  have exact: "\<forall>v v' c t d. Eval (GetField 0 BIGINT) [Int64 5] = Inr v \<and>
        Convert sampleTypes BIGINT v = Inr v' \<and> Literal c t \<in> set ?els \<and>
        Convert sampleTypes BIGINT c = Inr d \<longrightarrow>
        (\<exists>n. Compare sampleTypes (Promote sampleTypes BIGINT) v' d = Inr n \<and>
           ((n = 0) = (xxhash sampleLib (gosyntax sampleLib v' @ '','') =
                       xxhash sampleLib (gosyntax sampleLib d @ '',''))))"
    using h1 h3 h5 by (auto simp: sampleTypes_def)
  have eq: "HashInTuple_Eval sampleLib sampleTypes hit [Int64 5] =
      InTuple_Eval sampleTypes (NewInTuple (GetField 0 BIGINT) (Tuple ?els)) [Int64 5]"
    using hashed_agrees_with_linear [where lb = sampleLib and ts = sampleTypes
        and left = "GetField 0 BIGINT" and els = ?els and hit = hit and cf = "Int64 3"
        and tf = BIGINT and rest = "[Literal (Bool True) BOOLEAN, Literal (Int64 5) BIGINT, Literal (Int64 5) BIGINT]"
        and lt = BIGINT and i = 0 and row = "[Int64 5]", OF hit hn] exact
    by (simp add: sampleTypes_def)
  have "InTuple_Eval sampleTypes (NewInTuple (GetField 0 BIGINT) (Tuple ?els)) [Int64 5] = Inr (Bool True)"
    by (simp add: InTuple_Eval_def NewInTuple_def sampleTypes_def)
  with eq hit show ?thesis by simp
qed

text \<open>
  Over the empty candidate list the construction succeeds and records no type. For a
  left literal that is not NULL the hashed node then never returns a value: it fails
  the column check, or it calls \<open>Convert\<close> on the nil type and panics.
\<close>

lemma NewHashInTuple_empty:
  "NewHashInTuple lb ts l (Tuple []) =
   Inr \<lparr>Left = l, Right = Tuple [], cmp = Map.empty, hasNull = False, rightType = None\<rparr>"
  by (simp add: NewHashInTuple_def newInMap_def)

lemma HashInTuple_Eval_empty:
  "v \<noteq> NULL \<Longrightarrow>
   HashInTuple_Eval lb ts
     \<lparr>Left = Literal v t, Right = Tuple [], cmp = Map.empty, hasNull = False, rightType = None\<rparr> row =
     (if NumColumns ts None \<noteq> NumColumns ts (Some (Promote ts t))
      then Inl (ErrInvalidOperandColumns (NumColumns ts (Some (Promote ts t))) (NumColumns ts None))
      else Inl NilTypePanic)"
  by (simp add: HashInTuple_Eval_def hashOfLiteral_def)

text \<open>
  C3. The claim: over a list of literals without NULL the hashed and the linear node
  agree on every row, the empty list included. The code at the empty list and the left
  literal \<open>2\<close>: the construction of the hashed node succeeds, its evaluation panics on
  the nil type, and the linear node returns false.
\<close>

theorem C3_empty_list_panics:
  "(case NewHashInTuple sampleLib sampleTypes (Literal (Int64 2) BIGINT) (Tuple []) of
      Inl err \<Rightarrow> False
    | Inr hit \<Rightarrow>
        HashInTuple_Eval sampleLib sampleTypes hit [] = Inl NilTypePanic \<and>
        InTuple_Eval sampleTypes (NewInTuple (Literal (Int64 2) BIGINT) (Tuple [])) [] =
          Inr (Bool False))"
  by (simp add: NewHashInTuple_empty HashInTuple_Eval_empty InTuple_Eval_def NewInTuple_def
      sampleTypes_def)

section \<open>Properties of the mini-parser\<close>

subsection \<open>optional and maybe\<close>

text \<open>
  \<open>optional\<close> runs its steps like \<open>exec\<close> and turns \<open>io.EOF\<close> and a syntax error of
  the failing step into success; reader and variables stay as the failing step left them.
\<close>

lemma optional_exec:
  "optional steps rd s =
     (case exec steps rd s of
        (Some err, rd', s') \<Rightarrow>
          if err = EOF \<or> isUnexpectedSyntax err then (None, rd', s') else (Some err, rd', s')
      | (None, rd', s') \<Rightarrow> (None, rd', s'))"
  by (induction steps arbitrary: rd s) (auto split: prod.splits option.splits)

text \<open>
  \<open>maybe\<close> never returns an error: it reports no match with the input untouched, or a
  match with exactly the bytes of the look-ahead consumed.
\<close>

lemma maybe_cases:
  "(\<exists>rd'. maybe matched str rd s = (None, rd', matched False s) \<and> unread rd' = unread rd) \<or>
   (\<exists>rd' d. maybe matched str rd s = (None, rd', matched True (matched False s)) \<and>
      unread rd = d @ unread rd' \<and> length d = length str \<and> ToLower d = str)"
proof (cases "length str \<le> length (unread rd)")
  case False
  then show ?thesis by (simp add: maybe_def Peek_def Let_def)
next
  case True
  show ?thesis
  proof (cases "ToLower (take (length str) (unread rd)) = str")
    case False
    with True show ?thesis by (simp add: maybe_def Peek_def Let_def)
  next
    case m: True
    have "unread rd = take (length str) (unread rd) @ drop (length str) (unread rd)" by simp
    with True m show ?thesis
      by (auto simp: maybe_def Peek_def Discard_def Let_def intro!: exI[of _ "take (length str) (unread rd)"])
  qed
qed

subsection \<open>Quoted identifiers\<close>

text \<open>
  The loop of \<open>readQuotedIdent\<close> on text without a closing backtick: it ends without
  an error and leaves the last byte unread, unless the text is empty or ends in a
  (doubled) backtick, when it leaves nothing.
\<close>

lemma quotedIdentLoop_leftover:
  "unread r = w \<Longrightarrow> atEnd r = EOF \<Longrightarrow> unterminated w \<Longrightarrow>
   \<exists>r' buf'. quotedIdentLoop r buf = (None, r', buf') \<and> atEnd r' = EOF \<and>
     unread r' = (if w = [] \<or> last w = CHR 0x60 then [] else [last w])"
proof (induction w arbitrary: r buf rule: unterminated.induct)
  case 1
  then show ?case
    by (subst quotedIdentLoop.simps) (simp add: readValidQuotedIdentRune_def Peek_def)
next
  case (2 c)
  then show ?case
    by (subst quotedIdentLoop.simps) (simp add: readValidQuotedIdentRune_def Peek_def)
next
  case (3 c d cs)
  show ?case
  proof (cases "c = CHR 0x60")
    case True
    with 3 have d: "d = CHR 0x60" and u: "unterminated cs" by auto
    let ?r2 = "r\<lparr>lastRune := None\<rparr>\<lparr>unread := d # cs, lastRune := Some c\<rparr>\<lparr>unread := cs, lastRune := Some d\<rparr>"
    have step: "readValidQuotedIdentRune r buf = (None, ?r2, buf @ [CHR 0x60])"
      using 3(3) True d by (simp add: readValidQuotedIdentRune_def Peek_def ReadRune_def)
    have "\<exists>r' buf'. quotedIdentLoop ?r2 (buf @ [CHR 0x60]) = (None, r', buf') \<and> atEnd r' = EOF \<and>
        unread r' = (if cs = [] \<or> last cs = CHR 0x60 then [] else [last cs])"
      using 3(1)[OF True, of ?r2] 3(4) u by simp
    then show ?thesis
      using d by (subst quotedIdentLoop.simps) (auto simp: step)
  next
    case False
    with 3 have u: "unterminated (d # cs)" by auto
    let ?r1 = "r\<lparr>lastRune := None\<rparr>\<lparr>unread := d # cs, lastRune := Some c\<rparr>"
    have step: "readValidQuotedIdentRune r buf = (None, ?r1, buf @ [c])"
      using 3(3) False by (simp add: readValidQuotedIdentRune_def Peek_def ReadRune_def)
    have "\<exists>r' buf'. quotedIdentLoop ?r1 (buf @ [c]) = (None, r', buf') \<and> atEnd r' = EOF \<and>
        unread r' = (if d # cs = [] \<or> last (d # cs) = CHR 0x60 then [] else [last (d # cs)])"
      using 3(2)[OF False, of ?r1] 3(4) u by simp
    then show ?thesis
      by (subst quotedIdentLoop.simps) (auto simp: step)
  qed
qed

lemma readQuotedIdent_leftover:
  assumes "atEnd r = EOF" and "unterminated (unread r)"
  shows "if length (unread r) < 2
         then \<exists>r'. readQuotedIdent ident r s = (Some EOF, r', s)
         else \<exists>r' s'. readQuotedIdent ident r s = (None, r', s') \<and> atEnd r' = EOF \<and>
                unread r' = (if last (unread r) = CHR 0x60 then [] else [last (unread r)])"
proof (cases "unread r" rule: unterminated.cases)
  case 1
  with assms show ?thesis by (simp add: readQuotedIdent_def readValidQuotedIdentRune_def Peek_def)
next
  case (2 c)
  with assms show ?thesis by (simp add: readQuotedIdent_def readValidQuotedIdentRune_def Peek_def)
next
  case (3 c d cs)
  show ?thesis
  proof (cases "c = CHR 0x60")
    case True
    with 3 assms have d: "d = CHR 0x60" and u: "unterminated cs" by auto
    let ?r2 = "r\<lparr>lastRune := None\<rparr>\<lparr>unread := d # cs, lastRune := Some c\<rparr>\<lparr>unread := cs, lastRune := Some d\<rparr>"
    have step: "readValidQuotedIdentRune r [] = (None, ?r2, [CHR 0x60])"
      using 3 True d by (simp add: readValidQuotedIdentRune_def Peek_def ReadRune_def)
    obtain r' buf' where "quotedIdentLoop ?r2 [CHR 0x60] = (None, r', buf')" "atEnd r' = EOF"
      "unread r' = (if cs = [] \<or> last cs = CHR 0x60 then [] else [last cs])"
      using quotedIdentLoop_leftover[of ?r2 cs "[CHR 0x60]"] assms(1) u by auto
    then show ?thesis using 3 d by (auto simp: readQuotedIdent_def step)
  next
    case False
    with 3 assms have u: "unterminated (d # cs)" by auto
    let ?r1 = "r\<lparr>lastRune := None\<rparr>\<lparr>unread := d # cs, lastRune := Some c\<rparr>"
    have step: "readValidQuotedIdentRune r [] = (None, ?r1, [c])"
      using 3 False by (simp add: readValidQuotedIdentRune_def Peek_def ReadRune_def)
    obtain r' buf' where "quotedIdentLoop ?r1 [c] = (None, r', buf')" "atEnd r' = EOF"
      "unread r' = (if d # cs = [] \<or> last (d # cs) = CHR 0x60 then [] else [last (d # cs)])"
      using quotedIdentLoop_leftover[of ?r1 "d # cs" "[c]"] assms(1) u by auto
    then show ?thesis using 3 by (auto simp: readQuotedIdent_def step)
  qed
qed

lemma expectQuote_leftover:
  "atEnd r = EOF \<Longrightarrow> unread r = [] \<Longrightarrow> \<exists>r'. expectQuote r s = (Some EOF, r', s)"
  "unread r = [c] \<Longrightarrow> c \<noteq> CHR 0x60 \<Longrightarrow>
     \<exists>r'. expectQuote r s = (Some (ErrUnexpectedSyntax [CHR 0x60] [c]), r', s)"
  by (auto simp: expectQuote_def ReadRune_def)

text \<open>
  The error of the rule on text without a closing backtick: \<open>io.EOF\<close> when fewer than
  two bytes follow the opening backtick or the text ends in a backtick, else the syntax
  error that names the last byte.
\<close>

lemma unterminated_error:
  assumes u: "unterminated body"
  shows "\<exists>rd' s'. readQuotableIdent ident (NewReader (CHR 0x60 # body)) s =
           (Some (if length body < 2 \<or> last body = CHR 0x60 then EOF
                  else ErrUnexpectedSyntax [CHR 0x60] [last body]), rd', s')"
proof -
  let ?r0 = "\<lparr>unread = body, atEnd = EOF, lastRune = Some (CHR 0x60)\<rparr>"
  have start: "readQuotableIdent ident (NewReader (CHR 0x60 # body)) s =
     (case readQuotedIdent ident ?r0 s of
        (Some err, rd', s') \<Rightarrow> (Some err, rd', s')
      | (None, rd', s') \<Rightarrow> exec [expectQuote] rd' s')"
    by (simp add: readQuotableIdent_def Peek_def NewReader_def expectQuote_def ReadRune_def)
  note rq = readQuotedIdent_leftover[of ?r0 ident s]
  show ?thesis
  proof (cases "length body < 2")
    case True
    with rq u obtain r' where "readQuotedIdent ident ?r0 s = (Some EOF, r', s)" by auto
    with True show ?thesis by (simp add: start)
  next
    case False
    with rq u obtain r' s' where r': "readQuotedIdent ident ?r0 s = (None, r', s')"
      "atEnd r' = EOF" "unread r' = (if last body = CHR 0x60 then [] else [last body])"
      by auto
    show ?thesis
    proof (cases "last body = CHR 0x60")
      case True
      with r' expectQuote_leftover(1)[of r' s'] obtain r'' where
        "expectQuote r' s' = (Some EOF, r'', s')" by auto
      with r'(1) True False show ?thesis by (simp add: start)
    next
      case nb: False
      with r' expectQuote_leftover(2)[of r' "last body" s'] obtain r'' where
        "expectQuote r' s' = (Some (ErrUnexpectedSyntax [CHR 0x60] [last body]), r'', s')" by auto
      with r'(1) nb False show ?thesis by (simp add: start)
    qed
  qed
qed

lemma quotedIdentLoop_quoted:
  "unread r = quoteIdent content @ CHR 0x60 # rest \<Longrightarrow> atEnd r = EOF \<Longrightarrow>
   rest = [] \<or> hd rest \<noteq> CHR 0x60 \<Longrightarrow>
   \<exists>r'. quotedIdentLoop r buf = (None, r', buf @ content) \<and> unread r' = CHR 0x60 # rest \<and>
     atEnd r' = EOF"
proof (induction content arbitrary: r buf)
  case Nil
  then show ?case
    by (cases rest)
      (auto simp: quotedIdentLoop.simps[of r] readValidQuotedIdentRune_def Peek_def quoteIdent_def)
next
  case (Cons c cs)
  show ?case
  proof (cases "c = CHR 0x60")
    case True
    let ?r2 = "r\<lparr>lastRune := None\<rparr>\<lparr>unread := CHR 0x60 # quoteIdent cs @ CHR 0x60 # rest,
      lastRune := Some (CHR 0x60)\<rparr>\<lparr>unread := quoteIdent cs @ CHR 0x60 # rest,
      lastRune := Some (CHR 0x60)\<rparr>"
    have step: "readValidQuotedIdentRune r buf = (None, ?r2, buf @ [CHR 0x60])"
      using Cons.prems(1) True
      by (simp add: readValidQuotedIdentRune_def Peek_def ReadRune_def quoteIdent_def)
    obtain r' where "quotedIdentLoop ?r2 (buf @ [CHR 0x60]) = (None, r', (buf @ [CHR 0x60]) @ cs)"
      "unread r' = CHR 0x60 # rest" "atEnd r' = EOF"
      using Cons.IH[of ?r2 "buf @ [CHR 0x60]"] Cons.prems(2,3) by auto
    with True show ?thesis
      by (subst quotedIdentLoop.simps) (simp add: step)
  next
    case False
    let ?r1 = "r\<lparr>lastRune := None\<rparr>\<lparr>unread := quoteIdent cs @ CHR 0x60 # rest, lastRune := Some c\<rparr>"
    have "length (unread r) \<ge> 2"
      using Cons.prems(1) False by (simp add: quoteIdent_def)
    then have step: "readValidQuotedIdentRune r buf = (None, ?r1, buf @ [c])"
      using Cons.prems(1) False
      by (simp add: readValidQuotedIdentRune_def Peek_def ReadRune_def quoteIdent_def)
    obtain r' where "quotedIdentLoop ?r1 (buf @ [c]) = (None, r', (buf @ [c]) @ cs)"
      "unread r' = CHR 0x60 # rest" "atEnd r' = EOF"
      using Cons.IH[of ?r1 "buf @ [c]"] Cons.prems(2,3) by auto
    then show ?thesis
      by (subst quotedIdentLoop.simps) (simp add: step)
  qed
qed

lemma readQuotedIdent_quoted:
  assumes "unread r = quoteIdent content @ CHR 0x60 # rest" and "atEnd r = EOF"
    and "content \<noteq> []" and "rest = [] \<or> hd rest \<noteq> CHR 0x60"
  shows "\<exists>r'. readQuotedIdent ident r s = (None, r', ident (ToLower content) s) \<and>
           unread r' = CHR 0x60 # rest \<and> atEnd r' = EOF"
proof -
  from assms(3) obtain c cs where content: "content = c # cs" by (cases content) auto
  show ?thesis
  proof (cases "c = CHR 0x60")
    case True
    let ?r2 = "r\<lparr>lastRune := None\<rparr>\<lparr>unread := CHR 0x60 # quoteIdent cs @ CHR 0x60 # rest,
      lastRune := Some (CHR 0x60)\<rparr>\<lparr>unread := quoteIdent cs @ CHR 0x60 # rest,
      lastRune := Some (CHR 0x60)\<rparr>"
    have step: "readValidQuotedIdentRune r [] = (None, ?r2, [CHR 0x60])"
      using assms(1) True content
      by (simp add: readValidQuotedIdentRune_def Peek_def ReadRune_def quoteIdent_def)
    obtain r' where "quotedIdentLoop ?r2 [CHR 0x60] = (None, r', [CHR 0x60] @ cs)"
      "unread r' = CHR 0x60 # rest" "atEnd r' = EOF"
      using quotedIdentLoop_quoted[of ?r2 cs rest "[CHR 0x60]"] assms(2,4) by auto
    with True content show ?thesis by (simp add: readQuotedIdent_def step)
  next
    case False
    let ?r1 = "r\<lparr>lastRune := None\<rparr>\<lparr>unread := quoteIdent cs @ CHR 0x60 # rest, lastRune := Some c\<rparr>"
    have "length (unread r) \<ge> 2"
      using assms(1) False content by (simp add: quoteIdent_def)
    then have step: "readValidQuotedIdentRune r [] = (None, ?r1, [c])"
      using assms(1) False content
      by (simp add: readValidQuotedIdentRune_def Peek_def ReadRune_def quoteIdent_def)
    obtain r' where "quotedIdentLoop ?r1 [c] = (None, r', [c] @ cs)"
      "unread r' = CHR 0x60 # rest" "atEnd r' = EOF"
      using quotedIdentLoop_quoted[of ?r1 cs rest "[c]"] assms(2,4) by auto
    with content show ?thesis by (simp add: readQuotedIdent_def step)
  qed
qed

text \<open>
  C9, as amended (on ASCII text). A quoted identifier is decoded with every doubled
  backtick as one backtick and in lower case: for a non-empty identifier written with
  its backticks doubled between two backticks, and followed by the end of input or by a
  character other than a backtick, the rule yields the identifier in lower case and
  leaves what follows the closing backtick; in particular the letter a, two backticks
  and the letter b between backticks yield the identifier of a, one backtick and b.
  When the closing backtick is missing, the rule always fails: with the syntax error
  that expects a backtick and names the last character, when at least two characters
  follow the opening backtick and the last one is not a backtick; with \<open>io.EOF\<close>
  otherwise, that is when fewer than two characters follow the opening backtick or the
  text ends in a (doubled) backtick.
\<close>

theorem C9_quoted_ident:
  "(ascii content \<and> ascii rest \<and> content \<noteq> [] \<and> (rest = [] \<or> hd rest \<noteq> CHR 0x60) \<longrightarrow>
      (\<exists>rd'. readQuotableIdent ident (NewReader (CHR 0x60 # quoteIdent content @ CHR 0x60 # rest)) s =
          (None, rd', ident (ToLower content) s) \<and> unread rd' = rest)) \<and>
   (\<exists>rd'. readQuotableIdent ident
            (NewReader ([CHR 0x60] @ ''a'' @ [CHR 0x60, CHR 0x60] @ ''b'' @ [CHR 0x60])) s =
          (None, rd', ident (''a'' @ [CHR 0x60] @ ''b'') s) \<and> unread rd' = []) \<and>
   (ascii body \<and> unterminated body \<longrightarrow>
      (\<exists>rd' s'. readQuotableIdent ident (NewReader (CHR 0x60 # body)) s =
          (Some (if length body < 2 \<or> last body = CHR 0x60 then EOF
                 else ErrUnexpectedSyntax [CHR 0x60] [last body]), rd', s')))"
proof (intro conjI impI)
  assume c: "ascii content \<and> ascii rest \<and> content \<noteq> [] \<and> (rest = [] \<or> hd rest \<noteq> CHR 0x60)"
  let ?w = "quoteIdent content @ CHR 0x60 # rest"
  let ?r0 = "\<lparr>unread = ?w, atEnd = EOF, lastRune = Some (CHR 0x60)\<rparr>"
  have start: "readQuotableIdent ident (NewReader (CHR 0x60 # ?w)) s =
     (case readQuotedIdent ident ?r0 s of
        (Some err, rd', s') \<Rightarrow> (Some err, rd', s')
      | (None, rd', s') \<Rightarrow> exec [expectQuote] rd' s')"
    by (simp add: readQuotableIdent_def Peek_def NewReader_def expectQuote_def ReadRune_def)
  from readQuotedIdent_quoted[of ?r0 content rest ident s] c
  obtain r' where r': "readQuotedIdent ident ?r0 s = (None, r', ident (ToLower content) s)"
    "unread r' = CHR 0x60 # rest" by auto
  then show "\<exists>rd'. readQuotableIdent ident (NewReader (CHR 0x60 # ?w)) s =
          (None, rd', ident (ToLower content) s) \<and> unread rd' = rest"
    by (simp add: start expectQuote_def ReadRune_def)
next
  show "\<exists>rd'. readQuotableIdent ident
            (NewReader ([CHR 0x60] @ ''a'' @ [CHR 0x60, CHR 0x60] @ ''b'' @ [CHR 0x60])) s =
          (None, rd', ident (''a'' @ [CHR 0x60] @ ''b'') s) \<and> unread rd' = []"
    by (simp add: readQuotableIdent_def NewReader_def Peek_def expectQuote_def ReadRune_def
        readQuotedIdent_def readValidQuotedIdentRune_def ToLower_def)
next
  assume "ascii body \<and> unterminated body"
  then have "unterminated body" by simp
  then show "\<exists>rd' s'. readQuotableIdent ident (NewReader (CHR 0x60 # body)) s =
          (Some (if length body < 2 \<or> last body = CHR 0x60 then EOF
                 else ErrUnexpectedSyntax [CHR 0x60] [last body]), rd', s')"
    by (rule unterminated_error)
qed

theorem C9_quoted_ident_witness:
  "(\<exists>rd'. readQuotableIdent (\<lambda>v s. v)
           (NewReader (CHR 0x60 # ''Id'' @ [CHR 0x60, CHR 0x60, CHR 0x60] @ '' x'')) [] =
          (None, rd', ''id'' @ [CHR 0x60]) \<and> unread rd' = '' x'') \<and>
   (\<exists>rd' s'. readQuotableIdent (\<lambda>v s. v) (NewReader (CHR 0x60 # ''abc'')) [] =
          (Some (ErrUnexpectedSyntax [CHR 0x60] ''c''), rd', s')) \<and>
   (\<exists>rd' s'. readQuotableIdent (\<lambda>v s. v) (NewReader (CHR 0x60 # ''a'' @ [CHR 0x60, CHR 0x60])) [] =
          (Some EOF, rd', s'))"
proof -
  have low: "ToLower (''Id'' @ [CHR 0x60]) = ''id'' @ [CHR 0x60]"
    by code_simp
  have q: "quoteIdent (''Id'' @ [CHR 0x60]) = ''Id'' @ [CHR 0x60, CHR 0x60]"
    by (simp add: quoteIdent_def)
  have a: "ascii (''Id'' @ [CHR 0x60])" "ascii '' x''" "ascii ''abc''"
    "ascii (''a'' @ [CHR 0x60, CHR 0x60])"
    by (simp_all add: ascii_def)
  have u: "unterminated ''abc''" "unterminated (''a'' @ [CHR 0x60, CHR 0x60])"
    by simp_all
  show ?thesis
    using C9_quoted_ident [of "''Id'' @ [CHR 0x60]" "'' x''" "\<lambda>v s. v" "[]" "''abc''"]
      C9_quoted_ident [of "''Id'' @ [CHR 0x60]" "'' x''" "\<lambda>v s. v" "[]"
        "''a'' @ [CHR 0x60, CHR 0x60]"] a u
    unfolding low q by simp
qed

text \<open>
  C8, as amended. \<open>optional\<close> turns \<open>io.EOF\<close> or a syntax error of one of its steps
  into success and runs no further step; the reader stays where the steps run so far
  left it (what they consumed is not restored), and any other error is returned
  unchanged. \<open>maybe\<close> never fails: either it reports no match and leaves the input
  untouched, or it reports a match and has consumed the bytes whose lower case is the
  keyword.
\<close>

theorem C8_optional_maybe:
  "optional steps rd s =
     (case exec steps rd s of
        (Some err, rd', s') \<Rightarrow>
          if err = EOF \<or> isUnexpectedSyntax err then (None, rd', s') else (Some err, rd', s')
      | (None, rd', s') \<Rightarrow> (None, rd', s')) \<and>
   ((\<exists>rd'. maybe matched str rd s = (None, rd', matched False s) \<and> unread rd' = unread rd) \<or>
    (\<exists>rd' d. maybe matched str rd s = (None, rd', matched True (matched False s)) \<and>
       unread rd = d @ unread rd' \<and> length d = length str \<and> ToLower d = str))"
  by (intro conjI, rule optional_exec, rule maybe_cases)

theorem C8_optional_maybe_witness:
  "optional [expectRune (CHR ''(''), (\<lambda>rd s. (Some (ErrSource ''read failed''), rd, s))]
      (NewReader ''(a'') () =
     (Some (ErrSource ''read failed''), \<lparr>unread = ''a'', atEnd = EOF, lastRune = Some (CHR ''('')\<rparr>, ()) \<and>
   (\<exists>rd'. maybe (\<lambda>v s. v) ''on'' (NewReader ''off'') True = (None, rd', False) \<and> unread rd' = ''off'')"
  using C8_optional_maybe [of "[expectRune (CHR ''(''), (\<lambda>rd s. (Some (ErrSource ''read failed''), rd, s))]"
      "NewReader ''(a''" "()"]
    C8_optional_maybe [where steps = "[]" and matched = "\<lambda>v s. v" and str = "''on''"
      and rd = "NewReader ''off''" and s = True]
  by (simp add: expectRune_def ReadRune_def NewReader_def maybe_def Peek_def ToLower_def)

text \<open>
  The claim as stated fails on the error kind: a backtick followed by \<open>a\<close> and the
  end of input fails with \<open>io.EOF\<close>, which is not a syntax error.
\<close>

theorem C9_eof_counterexample:
  "unterminated ''a'' \<and>
   readQuotableIdent (\<lambda>v s. v) (NewReader [CHR 0x60, CHR ''a'']) [] =
     (Some EOF, \<lparr>unread = ''a'', atEnd = EOF, lastRune = None\<rparr>, [])"
  by (simp add: readQuotableIdent_def NewReader_def Peek_def expectQuote_def ReadRune_def
        readQuotedIdent_def readValidQuotedIdentRune_def)

text \<open>
  The claim as stated fails for \<open>optional\<close>: the step \<open>expectRune\<close> reads a rune
  before it reports the mismatch, and \<open>optional\<close> returns success with that rune
  consumed.
\<close>

theorem C8_consumed_counterexample:
  "expectRune (CHR ''x'') (NewReader ''abc'') () =
     (Some (ErrUnexpectedSyntax ''x'' ''a''), \<lparr>unread = ''bc'', atEnd = EOF, lastRune = Some (CHR ''a'')\<rparr>, ()) \<and>
   optional [expectRune (CHR ''x'')] (NewReader ''abc'') () =
     (None, \<lparr>unread = ''bc'', atEnd = EOF, lastRune = Some (CHR ''a'')\<rparr>, ())"
  by (simp add: expectRune_def ReadRune_def NewReader_def)

end
